theory Spec2Isabelle
  imports Main "HOL-Library.Multiset"
begin

section \<open>Asynchronous calls\<close>

text \<open>
  An awaited call either resolves to a value or rejects with an error, and it may have
  changed the state it was given before doing either. It is a function from the state to
  the outcome (\<open>Inl\<close> the rejection) paired with the state it leaves behind.
\<close>

type_synonym Alias = string
type_synonym Address = string

datatype error = Error string

type_synonym ('r, 's) async = "'s \<Rightarrow> (error + 'r) \<times> 's"

definition andThen :: "('r, 's) async \<Rightarrow> ('r \<Rightarrow> ('q, 's) async) \<Rightarrow> ('q, 's) async" where
  "andThen f g s = (case f s of (Inl e, s1) \<Rightarrow> (Inl e, s1) | (Inr x, s1) \<Rightarrow> g x s1)"

text \<open>
  A promise that is raced against a timer: what it settles to, and after how many
  milliseconds.
\<close>

datatype 'r promise = Promise (settles: "error + 'r") (after: nat)

text \<open>
  Modelled from the spec: \<open>asyncCallWithTimeout\<close> (module \<open>./Utils\<close>) is not under
  \<open>src/\<close>. The spec: "a dedicated timeout wrapper aborts an individual attempt if it
  exceeds a caller-specified time limit". Without a limit the promise is awaited as it is.
\<close>

definition asyncCallWithTimeout :: "'r promise \<Rightarrow> nat option \<Rightarrow> error + 'r" where
  "asyncCallWithTimeout p timeLimit =
     (case timeLimit of
        None \<Rightarrow> settles p
      | Some t \<Rightarrow> if t < after p then Inl (Error ''Async call timeout limit reached'') else settles p)"

section \<open>The deployment manager (DeploymentManager.ts)\<close>

record Contract =
  address :: Address
  abi :: string

text \<open>
  Modelled from the spec: \<open>ExtendedNonceManager\<close> is not under \<open>src/\<close>. A managed
  signer carries the count of pending transactions that \<open>_reset\<close> clears.
\<close>

record SignerWithAddress =
  signerAddress :: Address
  deltaCount :: nat

text \<open>
  Modelled from the spec: the class \<open>Cache\<close> (module \<open>./Cache\<close>) is not under \<open>src/\<close>.
  The spec: the persisted layout of one (network, deployment) namespace holds the roots,
  the aliases, the proxies and the migration artifacts, the latter keyed by migration name.
\<close>

record 'a Cache =
  cachedRoots :: "Alias \<rightharpoonup> Address"
  cachedAliases :: "Alias \<rightharpoonup> Address"
  cachedProxies :: "Alias \<rightharpoonup> Address"
  cachedArtifacts :: "string \<rightharpoonup> 'a"

text \<open>
  Modelled from the spec: \<open>getAliases\<close> of \<open>./Aliases\<close> is not under \<open>src/\<close>. It reads the
  persisted aliases; it "reflects the most recent successful write".
\<close>

definition Aliases_getAliases :: "'a Cache \<Rightarrow> (Alias \<rightharpoonup> Address)" where
  "Aliases_getAliases c = cachedAliases c"

text \<open>
  Modelled from the spec: \<open>putAlias\<close> of \<open>./Aliases\<close> is not under \<open>src/\<close>. An alias "maps
  to exactly one current Address"; the write is last-write-wins.
\<close>

definition Aliases_putAlias :: "'a Cache \<Rightarrow> Alias \<Rightarrow> Address \<Rightarrow> 'a Cache" where
  "Aliases_putAlias c alias addr = c\<lparr>cachedAliases := (cachedAliases c)(alias \<mapsto> addr)\<rparr>"

text \<open>
  Modelled from the spec: \<open>storeAliases\<close> of \<open>./Aliases\<close> is not under \<open>src/\<close>. It persists
  the alias map of a crawl in place of the one before.
\<close>

definition Aliases_storeAliases :: "'a Cache \<Rightarrow> (Alias \<rightharpoonup> Address) \<Rightarrow> 'a Cache" where
  "Aliases_storeAliases c m = c\<lparr>cachedAliases := m\<rparr>"

text \<open>
  Modelled from the spec: \<open>getProxies\<close> of \<open>./Proxies\<close> is not under \<open>src/\<close>. It reads the
  persisted proxies.
\<close>

definition Proxies_getProxies :: "'a Cache \<Rightarrow> (Alias \<rightharpoonup> Address)" where
  "Proxies_getProxies c = cachedProxies c"

text \<open>
  Modelled from the spec: \<open>putProxy\<close> of \<open>./Proxies\<close> is not under \<open>src/\<close>. It writes one
  proxy mapping, last-write-wins.
\<close>

definition Proxies_putProxy :: "'a Cache \<Rightarrow> Alias \<Rightarrow> Address \<Rightarrow> 'a Cache" where
  "Proxies_putProxy c alias addr = c\<lparr>cachedProxies := (cachedProxies c)(alias \<mapsto> addr)\<rparr>"

text \<open>
  Modelled from the spec: \<open>storeProxies\<close> of \<open>./Proxies\<close> is not under \<open>src/\<close>. It persists
  the proxy map of a crawl in place of the one before.
\<close>

definition Proxies_storeProxies :: "'a Cache \<Rightarrow> (Alias \<rightharpoonup> Address) \<Rightarrow> 'a Cache" where
  "Proxies_storeProxies c m = c\<lparr>cachedProxies := m\<rparr>"

text \<open>
  Modelled from the spec: \<open>getRoots\<close> of \<open>./Roots\<close> is not under \<open>src/\<close>. It reads the
  persisted root set.
\<close>

definition Roots_getRoots :: "'a Cache \<Rightarrow> (Alias \<rightharpoonup> Address)" where
  "Roots_getRoots c = cachedRoots c"

text \<open>
  Modelled from the spec: \<open>putRoots\<close> of \<open>./Roots\<close> is not under \<open>src/\<close>. It persists the root
  set.
\<close>

definition Roots_putRoots :: "'a Cache \<Rightarrow> (Alias \<rightharpoonup> Address) \<Rightarrow> 'a Cache" where
  "Roots_putRoots c m = c\<lparr>cachedRoots := m\<rparr>"

record Spider =
  aliases :: "Alias \<rightharpoonup> Address"
  proxies :: "Alias \<rightharpoonup> Address"

text \<open>
  The fields of the class. \<open>hre\<close> is the runtime environment the manager talks to (the
  chain); \<open>signers\<close> is the field \<open>_signers\<close>. Two fields record effects on the process
  that the class has no field for: \<open>timers\<close>, the delays awaited through \<open>setTimeout\<close>,
  in order, and \<open>warnings\<close>, the lines written by \<open>console.warn\<close> (retries left, wait,
  error). The \<open>config\<close> field is read by none of the methods below but \<open>deployOpts\<close>,
  which hands its verification strategy through to the external deployer; it is left out.
\<close>

record ('h, 'a) DeploymentManager =
  network :: string
  deployment :: string
  hre :: 'h
  counter :: nat
  cache :: "'a Cache"
  contractsCache :: "(Alias \<rightharpoonup> Contract) option"
  signers :: "SignerWithAddress list"
  timers :: "nat list"
  warnings :: "(int \<times> nat \<times> error) list"

record DeploymentSnapshot =
  count' :: nat
  spider' :: Spider

record DeploymentDelta =
  old :: DeploymentSnapshot
  new :: DeploymentSnapshot

text \<open>
  The default export of a dynamically imported deploy script, as far as \<open>runDeployScript\<close>
  looks at it. It is a falsy value (no default export among them), or a truthy one, of
  which two things matter: whether its property \<open>call\<close> is truthy, and what calling it
  does. A value that cannot be called makes the call throw the host's \<open>TypeError\<close>
  (\<open>Inl\<close>); a value that can is the deploy procedure (\<open>Inr\<close>), which is given the
  manager and the spec.
\<close>

datatype ('h, 'a) DefaultExport =
    Falsy
  | Truthy bool
      "error + (string \<Rightarrow> (Alias \<rightharpoonup> Contract, ('h, 'a) DeploymentManager) async)"

text \<open>
  The test \<open>!deployFn || !deployFn.call\<close> of \<open>runDeployScript\<close>, and whether the export can
  be called at all.
\<close>

fun missingDeployFunction :: "('h, 'a) DefaultExport \<Rightarrow> bool" where
  "missingDeployFunction Falsy = True"
| "missingDeployFunction (Truthy hasCall calling) = (\<not> hasCall)"

fun callable :: "('h, 'a) DefaultExport \<Rightarrow> bool" where
  "callable (Truthy hasCall (Inr deployFn)) = True"
| "callable d = False"

text \<open>
  The collaborators outside the repository's sources, taken as parameters:
  \<open>hre.ethers.getSigners\<close>; \<open>getContracts\<close> of \<open>./ContractMap\<close>, which materialises the
  handles from the cache; \<open>deploy\<close> of \<open>./Deploy\<close>, one construction attempt against the
  runtime, which is given the runtime, the cache and the signer to connect; \<open>spider\<close> of
  \<open>./Spider\<close>, the crawl from a root set; \<open>getFilePath\<close> of the cache; and the dynamic
  \<open>import\<close> of a script.
\<close>

record ('h, 'a) External =
  ethersGetSigners :: "'h \<Rightarrow> Address list"
  ContractMap_getContracts ::
    "'a Cache \<Rightarrow> 'h \<Rightarrow> SignerWithAddress option \<Rightarrow> error + (Alias \<rightharpoonup> Contract)"
  Deploy_deploy ::
    "string \<Rightarrow> string list \<Rightarrow> SignerWithAddress option \<Rightarrow> 'h \<Rightarrow> 'a Cache
       \<Rightarrow> Contract promise \<times> 'h \<times> 'a Cache"
  Spider_spider ::
    "'a Cache \<Rightarrow> 'h \<Rightarrow> (Alias \<rightharpoonup> Address) \<Rightarrow> (error + Spider) \<times> 'a Cache"
  Cache_getFilePath :: "'a Cache \<Rightarrow> string \<Rightarrow> string"
  importModule :: "string \<Rightarrow> error + ('h, 'a) DefaultExport"

text \<open>
  Modelled from the spec: the constructor of \<open>ExtendedNonceManager\<close> is not under \<open>src/\<close>;
  a new managed signer has no pending transactions.
\<close>

definition getManagedSigner :: "Address \<Rightarrow> SignerWithAddress" where
  "getManagedSigner a = \<lparr>signerAddress = a, deltaCount = 0\<rparr>"

definition getSigners ::
  "('h, 'a) External \<Rightarrow> ('h, 'a) DeploymentManager
     \<Rightarrow> SignerWithAddress list \<times> ('h, 'a) DeploymentManager" where
  "getSigners X s =
     (if length (signers s) > 0 then (signers s, s)
      else (let sg = map getManagedSigner (ethersGetSigners X (hre s))
            in (sg, s\<lparr>signers := sg\<rparr>)))"

text \<open>\<open>getSigner\<close> as it is called here, without an address: the first signer, if any.\<close>

definition getSigner ::
  "('h, 'a) External \<Rightarrow> ('h, 'a) DeploymentManager
     \<Rightarrow> SignerWithAddress option \<times> ('h, 'a) DeploymentManager" where
  "getSigner X s =
     (case getSigners X s of
        (sg, s1) \<Rightarrow> ((case sg of [] \<Rightarrow> None | x # _ \<Rightarrow> Some x), s1))"

text \<open>
  \<open>resetSignersPendingCounts\<close> calls \<open>_reset\<close> on every signer.
\<close>

definition resetSignersPendingCounts ::
  "('h, 'a) DeploymentManager \<Rightarrow> ('h, 'a) DeploymentManager" where
  "resetSignersPendingCounts s = s\<lparr>signers := map (\<lambda>sg. sg\<lparr>deltaCount := 0\<rparr>) (signers s)\<rparr>"

text \<open>\<open>deployOpts\<close>: the signer to connect (the cache travels with the state).\<close>

definition deployOpts ::
  "('h, 'a) External \<Rightarrow> ('h, 'a) DeploymentManager
     \<Rightarrow> SignerWithAddress option \<times> ('h, 'a) DeploymentManager" where
  "deployOpts X s = getSigner X s"

text \<open>The methods that write the registry, each followed by the invalidation.\<close>

definition invalidateContractsCache ::
  "('h, 'a) DeploymentManager \<Rightarrow> ('h, 'a) DeploymentManager" where
  "invalidateContractsCache s = s\<lparr>contractsCache := None\<rparr>"

definition putAlias ::
  "Alias \<Rightarrow> Address \<Rightarrow> ('h, 'a) DeploymentManager \<Rightarrow> ('h, 'a) DeploymentManager" where
  "putAlias alias addr s =
     invalidateContractsCache (s\<lparr>cache := Aliases_putAlias (cache s) alias addr\<rparr>)"

definition putProxy ::
  "Alias \<Rightarrow> Address \<Rightarrow> ('h, 'a) DeploymentManager \<Rightarrow> ('h, 'a) DeploymentManager" where
  "putProxy alias addr s =
     invalidateContractsCache (s\<lparr>cache := Proxies_putProxy (cache s) alias addr\<rparr>)"

definition getProxies :: "('h, 'a) DeploymentManager \<Rightarrow> (Alias \<rightharpoonup> Address)" where
  "getProxies s = Proxies_getProxies (cache s)"

definition getAliases :: "('h, 'a) DeploymentManager \<Rightarrow> (Alias \<rightharpoonup> Address)" where
  "getAliases s = Aliases_getAliases (cache s)"

text \<open>
  \<open>contracts\<close> returns the cached map of handles or, when there is none, has
  \<open>getContracts\<close> build it and caches it; \<open>contract\<close> looks one alias up in it.
\<close>

definition contracts ::
  "('h, 'a) External \<Rightarrow> (Alias \<rightharpoonup> Contract, ('h, 'a) DeploymentManager) async" where
  "contracts X s =
     (case contractsCache s of
        Some m \<Rightarrow> (Inr m, s)
      | None \<Rightarrow>
          (case getSigner X s of
             (sg, s1) \<Rightarrow>
               (case ContractMap_getContracts X (cache s1) (hre s1) sg of
                  Inl e \<Rightarrow> (Inl e, s1)
                | Inr m \<Rightarrow> (Inr m, s1\<lparr>contractsCache := Some m\<rparr>))))"

definition contract ::
  "('h, 'a) External \<Rightarrow> Alias \<Rightarrow> (Contract option, ('h, 'a) DeploymentManager) async" where
  "contract X alias s =
     (case contracts X s of
        (Inl e, s1) \<Rightarrow> (Inl e, s1)
      | (Inr m, s1) \<Rightarrow> (Inr (m alias), s1))"

text \<open>
  What the \<open>catch\<close> block of \<open>retry\<close> does before it tries again: it warns on the
  console, resets the pending counts of the signers and waits.
\<close>

definition backOff ::
  "int \<Rightarrow> nat \<Rightarrow> error \<Rightarrow> ('h, 'a) DeploymentManager \<Rightarrow> ('h, 'a) DeploymentManager" where
  "backOff retries wait e s =
     (let s1 = s\<lparr>warnings := warnings s @ [(retries, wait, e)]\<rparr>;
          s2 = resetSignersPendingCounts s1
      in s2\<lparr>timers := timers s2 @ [wait]\<rparr>)"

text \<open>
  \<open>retry\<close> calls itself until an attempt resolves or \<open>retries === 0\<close>. \<open>retries\<close> is a
  number of the caller's choice, and for a negative one the test never holds: the function
  returns \<open>None\<close> where the recursion does not end.
\<close>

partial_function (option) retryFrom ::
  "(('h, 'a) DeploymentManager \<Rightarrow> 'r promise \<times> ('h, 'a) DeploymentManager)
     \<Rightarrow> int \<Rightarrow> nat option \<Rightarrow> nat \<Rightarrow> ('h, 'a) DeploymentManager
     \<Rightarrow> ((error + 'r) \<times> ('h, 'a) DeploymentManager) option" where
  "retryFrom fn retries timeLimit wait s =
     (case fn s of
        (p, s1) \<Rightarrow>
          (case asyncCallWithTimeout p timeLimit of
             Inr r \<Rightarrow> Some (Inr r, s1)
           | Inl e \<Rightarrow>
               if retries = 0 then Some (Inl e, s1)
               else retryFrom fn (retries - 1) timeLimit (wait * 2) (backOff retries wait e s1)))"

text \<open>The defaults of the optional parameters: 5 retries, 250 ms.\<close>

definition retry ::
  "(('h, 'a) DeploymentManager \<Rightarrow> 'r promise \<times> ('h, 'a) DeploymentManager)
     \<Rightarrow> int option \<Rightarrow> nat option \<Rightarrow> nat option \<Rightarrow> ('h, 'a) DeploymentManager
     \<Rightarrow> ((error + 'r) \<times> ('h, 'a) DeploymentManager) option" where
  "retry fn retries timeLimit wait s =
     retryFrom fn (case retries of None \<Rightarrow> 5 | Some n \<Rightarrow> n) timeLimit
       (case wait of None \<Rightarrow> 250 | Some w \<Rightarrow> w) s"

text \<open>One construction attempt, the closure that \<open>_deploy\<close> hands to \<open>retry\<close>.\<close>

definition deployAttempt ::
  "('h, 'a) External \<Rightarrow> string \<Rightarrow> string list \<Rightarrow> ('h, 'a) DeploymentManager
     \<Rightarrow> Contract promise \<times> ('h, 'a) DeploymentManager" where
  "deployAttempt X contractFile deployArgs s =
     (case deployOpts X s of
        (connect, s1) \<Rightarrow>
          (case Deploy_deploy X contractFile deployArgs connect (hre s1) (cache s1) of
             (p, h, c) \<Rightarrow> (p, s1\<lparr>hre := h, cache := c\<rparr>)))"

text \<open>The method \<open>_deploy\<close>.\<close>

definition deploy' ::
  "('h, 'a) External \<Rightarrow> string \<Rightarrow> string list \<Rightarrow> int option \<Rightarrow> ('h, 'a) DeploymentManager
     \<Rightarrow> ((error + Contract) \<times> ('h, 'a) DeploymentManager) option" where
  "deploy' X contractFile deployArgs retries s =
     (case retry (deployAttempt X contractFile deployArgs) retries None None s of
        None \<Rightarrow> None
      | Some (Inl e, s1) \<Rightarrow> Some (Inl e, s1)
      | Some (Inr c, s1) \<Rightarrow> Some (Inr c, s1\<lparr>counter := counter s1 + 1\<rparr>))"

text \<open>
  The method \<open>deploy\<close>. An absent \<open>force\<close> is \<open>False\<close>; \<open>!maybeExisting || force\<close> selects
  the construction.
\<close>

definition deploy ::
  "('h, 'a) External \<Rightarrow> Alias \<Rightarrow> string \<Rightarrow> string list \<Rightarrow> bool \<Rightarrow> int option
     \<Rightarrow> ('h, 'a) DeploymentManager
     \<Rightarrow> ((error + Contract) \<times> ('h, 'a) DeploymentManager) option" where
  "deploy X alias contractFile deployArgs force retries s =
     (case contract X alias s of
        (Inl e, s1) \<Rightarrow> Some (Inl e, s1)
      | (Inr maybeExisting, s1) \<Rightarrow>
          (case (if force then None else maybeExisting) of
             Some existing \<Rightarrow> Some (Inr existing, s1)
           | None \<Rightarrow>
               (case deploy' X contractFile deployArgs retries s1 of
                  None \<Rightarrow> None
                | Some (Inl e, s2) \<Rightarrow> Some (Inl e, s2)
                | Some (Inr c, s2) \<Rightarrow> Some (Inr c, putAlias alias (address c) s2))))"

text \<open>
  The method \<open>spider\<close>: the roots are the persisted ones overridden by the addresses of
  the contracts just deployed; the crawl's maps are persisted and the handles invalidated.
\<close>

definition spider ::
  "('h, 'a) External \<Rightarrow> (Alias \<rightharpoonup> Contract) \<Rightarrow> (Spider, ('h, 'a) DeploymentManager) async" where
  "spider X deployed s =
     (let roots = Roots_getRoots (cache s) ++ (\<lambda>a. map_option address (deployed a))
      in case Spider_spider X (cache s) (hre s) roots of
           (Inl e, c1) \<Rightarrow> (Inl e, s\<lparr>cache := c1\<rparr>)
         | (Inr crawl, c1) \<Rightarrow>
             (Inr crawl,
              invalidateContractsCache
                (s\<lparr>cache := Proxies_storeProxies
                              (Aliases_storeAliases (Roots_putRoots c1 roots) (aliases crawl))
                              (proxies crawl)\<rparr>)))"

text \<open>
  The method \<open>runDeployScript\<close>. A default export that is falsy or has no truthy \<open>call\<close>
  is refused with the error that names the script. One that passes the test is called: if
  it cannot be called (a class, an object with a property \<open>call\<close>), the call throws.
\<close>

definition runDeployScript ::
  "('h, 'a) External \<Rightarrow> string \<Rightarrow> (DeploymentDelta, ('h, 'a) DeploymentManager) async" where
  "runDeployScript X deploySpec s =
     (let oldCount = counter s
      in case spider X Map.empty s of
           (Inl e, s1) \<Rightarrow> (Inl e, s1)
         | (Inr oldSpider, s1) \<Rightarrow>
             (let deployScript = Cache_getFilePath X (cache s1) ''deploy.ts''
              in case importModule X deployScript of
                   Inl e \<Rightarrow> (Inl e, s1)
                 | Inr Falsy \<Rightarrow>
                     (Inl (Error (''Missing deploy function in '' @ deployScript @ ''.'')), s1)
                 | Inr (Truthy False calling) \<Rightarrow>
                     (Inl (Error (''Missing deploy function in '' @ deployScript @ ''.'')), s1)
                 | Inr (Truthy True (Inl typeError)) \<Rightarrow> (Inl typeError, s1)
                 | Inr (Truthy True (Inr deployFn)) \<Rightarrow>
                     (case deployFn deploySpec s1 of
                        (Inl e, s2) \<Rightarrow> (Inl e, s2)
                      | (Inr deployed, s2) \<Rightarrow>
                          (let newCount = counter s2
                           in case spider X deployed s2 of
                                (Inl e, s3) \<Rightarrow> (Inl e, s3)
                              | (Inr newSpider, s3) \<Rightarrow>
                                  (Inr \<lparr>old = \<lparr>count' = oldCount, spider' = oldSpider\<rparr>,
                                        new = \<lparr>count' = newCount, spider' = newSpider\<rparr>\<rparr>,
                                   s3)))))"

section \<open>Migrations and the scenario constraints\<close>

text \<open>
  The world of a scenario holds the deployment manager and, for some bases, an auxiliary
  one for governance. A migration's operations are given both managers and may change
  either, so each is an awaited call on the world.
\<close>

record ('h, 'a) World =
  deploymentManager :: "('h, 'a) DeploymentManager"
  auxiliaryDeploymentManager :: "('h, 'a) DeploymentManager option"

record ('h, 'a) Actions =
  prepare :: "('a, ('h, 'a) World) async"
  enact :: "'a \<Rightarrow> (unit, ('h, 'a) World) async"
  enacted :: "(bool, ('h, 'a) World) async option"
  verify :: "(unit, ('h, 'a) World) async option"

record ('h, 'a) Migration =
  name :: string
  actions :: "('h, 'a) Actions"

text \<open>
  Modelled from the spec: \<open>getArtifactSpec\<close> (module \<open>./Migration\<close>) is not under \<open>src/\<close>.
  The spec: "\<open>storeArtifact\<close>/\<open>readArtifact\<close> key by migration name".
\<close>

definition getArtifactSpec :: "('h, 'a) Migration \<Rightarrow> string" where
  "getArtifactSpec migration = name migration"

text \<open>
  Modelled from the spec: \<open>storeCache\<close> of the class \<open>Cache\<close> is not under \<open>src/\<close>. The spec:
  \<open>write(namespace, key, value)\<close>, last-write-wins.
\<close>

definition Cache_storeCache :: "'a Cache \<Rightarrow> string \<Rightarrow> 'a \<Rightarrow> 'a Cache" where
  "Cache_storeCache c spec artifact = c\<lparr>cachedArtifacts := (cachedArtifacts c)(spec \<mapsto> artifact)\<rparr>"

text \<open>
  Modelled from the spec: \<open>readCache\<close> of the class \<open>Cache\<close> is not under \<open>src/\<close>. The spec:
  "read of a missing key returns a typed not-found outcome".
\<close>

definition Cache_readCache :: "'a Cache \<Rightarrow> string \<Rightarrow> 'a option" where
  "Cache_readCache c spec = cachedArtifacts c spec"

text \<open>The methods \<open>storeArtifact\<close> and \<open>readArtifact\<close> of the deployment manager.\<close>

definition storeArtifact ::
  "('h, 'a) External \<Rightarrow> ('h, 'a) Migration \<Rightarrow> 'a \<Rightarrow> ('h, 'a) DeploymentManager
     \<Rightarrow> string \<times> ('h, 'a) DeploymentManager" where
  "storeArtifact X migration artifact s =
     (let artifactSpec = getArtifactSpec migration;
          s1 = s\<lparr>cache := Cache_storeCache (cache s) artifactSpec artifact\<rparr>
      in (Cache_getFilePath X (cache s1) artifactSpec, s1))"

definition readArtifact :: "('h, 'a) Migration \<Rightarrow> ('h, 'a) DeploymentManager \<Rightarrow> 'a option" where
  "readArtifact migration s = Cache_readCache (cache s) (getArtifactSpec migration)"

text \<open>
  The calls a Solution issues, in order: the three operations of a unit and the helper
  \<open>isEnacted\<close>, each with the unit's name, \<open>enact\<close> also with the artifact it is handed.
\<close>

datatype 'a call = Prepare string | IsEnacted string | Enact string 'a | Verify string

record ('h, 'a) CometContext =
  world :: "('h, 'a) World"
  migrations :: "('h, 'a) Migration list option"
  calls :: "'a call list"

definition call ::
  "'a call \<Rightarrow> ('r, ('h, 'a) World) async \<Rightarrow> ('r, ('h, 'a) CometContext) async" where
  "call ev f ctx = (case f (world ctx) of (r, w) \<Rightarrow> (r, ctx\<lparr>world := w, calls := calls ctx @ [ev]\<rparr>))"

definition resolve :: "'r \<Rightarrow> ('r, 's) async" where
  "resolve x s = (Inr x, s)"

text \<open>
  \<open>ctx.world.auxiliaryDeploymentManager || ctx.world.deploymentManager\<close>: without an
  auxiliary manager the governance manager is the deployment manager itself, the same
  object, so a change made through one name is seen through the other.
\<close>

definition govDeploymentManager :: "('h, 'a) World \<Rightarrow> ('h, 'a) DeploymentManager" where
  "govDeploymentManager w =
     (case auxiliaryDeploymentManager w of Some g \<Rightarrow> g | None \<Rightarrow> deploymentManager w)"

definition updateGov ::
  "(('h, 'a) DeploymentManager \<Rightarrow> ('h, 'a) DeploymentManager) \<Rightarrow> ('h, 'a) World \<Rightarrow> ('h, 'a) World" where
  "updateGov f w =
     (case auxiliaryDeploymentManager w of
        Some g \<Rightarrow> w\<lparr>auxiliaryDeploymentManager := Some (f g)\<rparr>
      | None \<Rightarrow> w\<lparr>deploymentManager := f (deploymentManager w)\<rparr>)"

definition isEnacted :: "('h, 'a) Actions \<Rightarrow> (bool, ('h, 'a) World) async" where
  "isEnacted a w = (case enacted a of Some p \<Rightarrow> p w | None \<Rightarrow> (Inr False, w))"

text \<open>
  \<open>Array.prototype.sort\<close> with a comparison function is stable; for a consistent
  comparison its result is the stable sorted arrangement, which insertion from the right
  computes.
\<close>

fun insertBy :: "('x \<Rightarrow> 'x \<Rightarrow> int) \<Rightarrow> 'x \<Rightarrow> 'x list \<Rightarrow> 'x list" where
  "insertBy cmp x [] = [x]"
| "insertBy cmp x (y # ys) = (if cmp x y \<le> 0 then x # y # ys else y # insertBy cmp x ys)"

definition sortBy :: "('x \<Rightarrow> 'x \<Rightarrow> int) \<Rightarrow> 'x list \<Rightarrow> 'x list" where
  "sortBy cmp xs = foldr (insertBy cmp) xs []"

text \<open>A \<open>for ... of\<close> loop whose body is awaited: the first rejection ends it.\<close>

fun forEach :: "('x \<Rightarrow> (unit, 's) async) \<Rightarrow> 'x list \<Rightarrow> (unit, 's) async" where
  "forEach body [] s = (Inr (), s)"
| "forEach body (x # xs) s =
     (case body x s of (Inl e, s1) \<Rightarrow> (Inl e, s1) | (Inr u, s1) \<Rightarrow> forEach body xs s1)"

text \<open>
  What the scenario runtime supplies: the string comparison \<open>localeCompare\<close> of the host,
  and the proposer, the first COMP whale impersonated on the governance manager
  (\<open>ctx.getCompWhales\<close> and \<open>impersonateAddress\<close>).
\<close>

record ('h, 'a) Runtime =
  localeCompare :: "string \<Rightarrow> string \<Rightarrow> int"
  impersonateProposer :: "(SignerWithAddress, ('h, 'a) World) async"

text \<open>
  The body of the loop over the migrations of a subset (MigrationConstraint.solve). The
  \<open>debug\<close> lines are not modelled; the calls are recorded on the context instead.
\<close>

definition migrateOne :: "('h, 'a) Migration \<Rightarrow> (unit, ('h, 'a) CometContext) async" where
  "migrateOne migration =
     andThen (call (Prepare (name migration)) (prepare (actions migration))) (\<lambda>artifact.
     andThen (call (IsEnacted (name migration)) (isEnacted (actions migration))) (\<lambda>en.
       if en then resolve ()
       else call (Enact (name migration) artifact) (enact (actions migration) artifact)))"

definition sortMigrations ::
  "('h, 'a) Runtime \<Rightarrow> ('h, 'a) Migration list \<Rightarrow> ('h, 'a) Migration list" where
  "sortMigrations R migrationList = sortBy (\<lambda>a b. localeCompare R (name a) (name b)) migrationList"

text \<open>
  The Solution pushed for one migration list: the proposer becomes the first signer of the
  governance manager, the list is sorted and recorded on the context, the units are
  replayed, and the proposer is removed again. A rejection leaves the function where it
  occurs, so the proposer stays.
\<close>

definition migrationSolution ::
  "('h, 'a) Runtime \<Rightarrow> ('h, 'a) Migration list \<Rightarrow> (unit, ('h, 'a) CometContext) async" where
  "migrationSolution R migrationList ctx =
     (case impersonateProposer R (world ctx) of
        (Inl e, w1) \<Rightarrow> (Inl e, ctx\<lparr>world := w1\<rparr>)
      | (Inr proposer, w1) \<Rightarrow>
          (let ctx1 = ctx\<lparr>world := updateGov (\<lambda>g. g\<lparr>signers := proposer # signers g\<rparr>) w1\<rparr>;
               sorted = sortMigrations R migrationList;
               ctx2 = ctx1\<lparr>migrations := Some sorted\<rparr>
           in case forEach migrateOne sorted ctx2 of
                (Inl e, ctx3) \<Rightarrow> (Inl e, ctx3)
              | (Inr u, ctx3) \<Rightarrow>
                  (Inr (), ctx3\<lparr>world := updateGov (\<lambda>g. g\<lparr>signers := tl (signers g)\<rparr>) (world ctx3)\<rparr>)))"

text \<open>
  Modelled from the spec: \<open>subsets\<close> (module \<open>../utils\<close>) is not under \<open>src/\<close>. The spec:
  "produces one Solution per subset in the powerset"; the order of the subsets is not said.
\<close>

definition subsets :: "'x list \<Rightarrow> 'x list list" where
  "subsets xs = subseqs xs"

text \<open>\<open>process.env['WITHOUT_MIGRATIONS']\<close>: unset, or a string, which is truthy unless empty.\<close>

definition truthy :: "string option \<Rightarrow> bool" where
  "truthy v = (case v of None \<Rightarrow> False | Some s \<Rightarrow> s \<noteq> [])"

text \<open>
  The migration lists for which \<open>MigrationConstraint.solve\<close> pushes a Solution, and the
  Solutions. The discovered pool is what \<open>getMigrations\<close> returned.
\<close>

definition solvePaths :: "string option \<Rightarrow> 'x list \<Rightarrow> 'x list list" where
  "solvePaths withoutMigrations discovered =
     (let migrationPaths = subsets discovered
      in filter (\<lambda>migrationList.
                   \<not> (length migrationList = 0 \<and> length migrationPaths > 1
                      \<and> \<not> truthy withoutMigrations))
           migrationPaths)"

definition MigrationConstraint_solve ::
  "('h, 'a) Runtime \<Rightarrow> string option \<Rightarrow> ('h, 'a) Migration list
     \<Rightarrow> (unit, ('h, 'a) CometContext) async list" where
  "MigrationConstraint_solve R withoutMigrations discovered =
     map (migrationSolution R) (solvePaths withoutMigrations discovered)"

text \<open>The body of the loop of the verification Solution, and the Solution.\<close>

definition verifyOne :: "('h, 'a) Migration \<Rightarrow> (unit, ('h, 'a) CometContext) async" where
  "verifyOne migration =
     (case verify (actions migration) of
        None \<Rightarrow> resolve ()
      | Some v \<Rightarrow>
          andThen (call (IsEnacted (name migration)) (isEnacted (actions migration))) (\<lambda>en.
            if \<not> en then call (Verify (name migration)) v else resolve ()))"

definition verifySolution :: "(unit, ('h, 'a) CometContext) async" where
  "verifySolution ctx =
     (case migrations ctx of
        None \<Rightarrow> (Inr (), ctx)
      | Some ms \<Rightarrow> forEach verifyOne ms ctx)"

definition VerifyMigrationConstraint_solve :: "(unit, ('h, 'a) CometContext) async list" where
  "VerifyMigrationConstraint_solve = [verifySolution]"

section \<open>Observing a run\<close>

text \<open>
  The calls a run added to the context's record, the \<open>enact\<close> calls among them for the
  unit of a given name, and the names of the units on which \<open>verify\<close> and \<open>prepare\<close> were
  called, in order.
\<close>

definition issued :: "('h, 'a) CometContext \<Rightarrow> ('h, 'a) CometContext \<Rightarrow> 'a call list" where
  "issued ctx ctx' = drop (length (calls ctx)) (calls ctx')"

fun enactsOf :: "string \<Rightarrow> 'a call \<Rightarrow> bool" where
  "enactsOf n (Enact n' a) = (n' = n)"
| "enactsOf n c = False"

definition enactCalls :: "string \<Rightarrow> 'a call list \<Rightarrow> nat" where
  "enactCalls n t = length (filter (enactsOf n) t)"

fun verifyCalls :: "'a call list \<Rightarrow> string list" where
  "verifyCalls [] = []"
| "verifyCalls (Verify n # t) = n # verifyCalls t"
| "verifyCalls (c # t) = verifyCalls t"

fun prepareCalls :: "'a call list \<Rightarrow> string list" where
  "prepareCalls [] = []"
| "prepareCalls (Prepare n # t) = n # prepareCalls t"
| "prepareCalls (c # t) = prepareCalls t"

section \<open>A small deployment to run the definitions on\<close>

text \<open>
  The runtime of the examples is the list of the names of the migrations enacted on it,
  and an artifact is a string. \<open>codeUnitCompare\<close> compares strings character by
  character; it stands in for the host's \<open>localeCompare\<close> in the examples.
\<close>

fun codeUnitCompare :: "string \<Rightarrow> string \<Rightarrow> int" where
  "codeUnitCompare [] [] = 0"
| "codeUnitCompare [] (y # ys) = - 1"
| "codeUnitCompare (x # xs) [] = 1"
| "codeUnitCompare (x # xs) (y # ys) =
     (if (of_char x :: nat) < of_char y then - 1
      else if (of_char y :: nat) < of_char x then 1
      else codeUnitCompare xs ys)"

definition exampleCache :: "string Cache" where
  "exampleCache =
     \<lparr>cachedRoots = Map.empty, cachedAliases = Map.empty,
      cachedProxies = Map.empty, cachedArtifacts = Map.empty\<rparr>"

definition exampleManager :: "(string list, string) DeploymentManager" where
  "exampleManager =
     \<lparr>network = ''mainnet'', deployment = ''usdc'', hre = [], counter = 0,
      cache = exampleCache,
      contractsCache = None, signers = [], timers = [], warnings = []\<rparr>"

definition exampleContext :: "(string list, string) CometContext" where
  "exampleContext =
     \<lparr>world = \<lparr>deploymentManager = exampleManager, auxiliaryDeploymentManager = None\<rparr>,
      migrations = None, calls = []\<rparr>"

definition exampleRuntime :: "(string list, string) Runtime" where
  "exampleRuntime =
     \<lparr>localeCompare = codeUnitCompare,
      impersonateProposer = (\<lambda>w. (Inr \<lparr>signerAddress = ''0xwhale'', deltaCount = 0\<rparr>, w))\<rparr>"

definition enactOnChain :: "string \<Rightarrow> (string list, string) World \<Rightarrow> (string list, string) World" where
  "enactOnChain n w =
     w\<lparr>deploymentManager := (deploymentManager w)\<lparr>hre := n # hre (deploymentManager w)\<rparr>\<rparr>"

text \<open>
  Three kinds of unit. A \<open>tracked\<close> unit has an \<open>enacted\<close> predicate that reads the
  runtime, so it holds from the moment \<open>enact\<close> has run. A \<open>flagged\<close> unit answers
  \<open>enacted\<close> with a constant written into it. An \<open>untracked\<close> unit defines no predicate.
\<close>

definition tracked :: "string \<Rightarrow> (string list, string) Migration" where
  "tracked n =
     \<lparr>name = n,
      actions = \<lparr>prepare = (\<lambda>w. (Inr (''artifact of '' @ n), w)),
                 enact = (\<lambda>a w. (Inr (), enactOnChain n w)),
                 enacted = Some (\<lambda>w. (Inr (n \<in> set (hre (deploymentManager w))), w)),
                 verify = Some (\<lambda>w. (Inr (), w))\<rparr>\<rparr>"

definition flagged :: "string \<Rightarrow> bool \<Rightarrow> (string list, string) Migration" where
  "flagged n b = (tracked n)\<lparr>actions := (actions (tracked n))\<lparr>enacted := Some (\<lambda>w. (Inr b, w))\<rparr>\<rparr>"

definition untracked :: "string \<Rightarrow> (string list, string) Migration" where
  "untracked n = (tracked n)\<lparr>actions := (actions (tracked n))\<lparr>enacted := None\<rparr>\<rparr>"

text \<open>
  Two tracked units, discovered in the order b, a; the context after a first run of their
  Solution, and after the verification Solution that follows it.
\<close>

definition twoUnits :: "(string list, string) Migration list" where
  "twoUnits = [tracked ''1000_b'', tracked ''1000_a'']"

definition firstPass :: "(string list, string) CometContext" where
  "firstPass = snd (migrationSolution exampleRuntime twoUnits exampleContext)"

definition firstVerified :: "(string list, string) CometContext" where
  "firstVerified = snd (verifySolution firstPass)"

definition bothEnacted :: "(string list, string) World \<Rightarrow> bool" where
  "bothEnacted w =
     (''1000_a'' \<in> set (hre (deploymentManager w)) \<and> ''1000_b'' \<in> set (hre (deploymentManager w)))"

text \<open>
  Two flagged units, one already enacted and one not, and the context after a run of their
  Solution; and the context after two runs of the Solution of one untracked unit.
\<close>

definition flaggedUnits :: "(string list, string) Migration list" where
  "flaggedUnits = [flagged ''1000_b'' False, flagged ''1000_a'' True]"

definition flaggedPass :: "(string list, string) CometContext" where
  "flaggedPass = snd (migrationSolution exampleRuntime flaggedUnits exampleContext)"

definition untrackedTwice :: "(string list, string) CometContext" where
  "untrackedTwice =
     snd (migrationSolution exampleRuntime [untracked ''1000_a'']
            (snd (migrationSolution exampleRuntime [untracked ''1000_a''] exampleContext)))"

text \<open>The artifacts held by the caches of the managers of a world.\<close>

definition storedArtifacts :: "('h, 'a) World \<Rightarrow> (string \<rightharpoonup> 'a) \<times> (string \<rightharpoonup> 'a) option" where
  "storedArtifacts w =
     (cachedArtifacts (cache (deploymentManager w)),
      map_option (\<lambda>g. cachedArtifacts (cache g)) (auxiliaryDeploymentManager w))"

section \<open>A runtime to deploy on\<close>

text \<open>
  The runtime of these examples counts the construction attempts made on it. On the flaky
  one the first two attempts fail and the later ones succeed, each at an address of its
  own; on the one that is down every attempt fails, with an error that tells the attempts
  apart; on the slow one every attempt resolves after nine seconds.
\<close>

definition freshManager :: "(nat, string) DeploymentManager" where
  "freshManager =
     \<lparr>network = ''mainnet'', deployment = ''usdc'', hre = 0, counter = 0,
      cache = exampleCache,
      contractsCache = None, signers = [], timers = [], warnings = []\<rparr>"

definition flakyExternal :: "(nat, string) External" where
  "flakyExternal =
     \<lparr>ethersGetSigners = (\<lambda>h. [''0xsigner'']),
      ContractMap_getContracts =
        (\<lambda>c h sg. Inr (\<lambda>a. map_option (\<lambda>addr. \<lparr>address = addr, abi = a\<rparr>) (cachedAliases c a))),
      Deploy_deploy =
        (\<lambda>contractFile deployArgs connect h c.
           (if h < 2 then Promise (Inl (Error ''transient'')) 10
            else Promise (Inr \<lparr>address = ''0x'' @ replicate h CHR ''c'', abi = contractFile\<rparr>) 10,
            h + 1, c)),
      Spider_spider = (\<lambda>c h roots. (Inr \<lparr>aliases = roots, proxies = Map.empty\<rparr>, c)),
      Cache_getFilePath = (\<lambda>c rel. ''deployments/'' @ rel),
      importModule = (\<lambda>path. Inr Falsy)\<rparr>"

definition downExternal :: "(nat, string) External" where
  "downExternal =
     flakyExternal\<lparr>Deploy_deploy :=
       (\<lambda>contractFile deployArgs connect h c.
          (Promise (Inl (Error (replicate (Suc h) CHR ''!''))) 10, h + 1, c))\<rparr>"

definition slowExternal :: "(nat, string) External" where
  "slowExternal =
     flakyExternal\<lparr>Deploy_deploy :=
       (\<lambda>contractFile deployArgs connect h c.
          (Promise (Inr \<lparr>address = ''0xc'', abi = contractFile\<rparr>) 9000, h + 1, c))\<rparr>"

text \<open>The manager after a first deployment under the alias \<open>comet\<close> on the flaky runtime.\<close>

definition afterFirstDeploy :: "(nat, string) DeploymentManager" where
  "afterFirstDeploy =
     (case deploy flakyExternal ''comet'' ''Comet.sol'' [] False None freshManager of
        Some (r, s) \<Rightarrow> s
      | None \<Rightarrow> freshManager)"

text \<open>
  A manager whose cache of handles holds a handle for \<open>comet\<close> at an old address; a
  runtime whose deploy script exports a procedure that deploys one contract; and one whose
  deploy script exports a class, which has a \<open>call\<close> and cannot be called.
\<close>

definition staleManager :: "(nat, string) DeploymentManager" where
  "staleManager =
     freshManager
       \<lparr>cache := exampleCache\<lparr>cachedAliases := [''comet'' \<mapsto> ''0xold'']\<rparr>,
        contractsCache := Some [''comet'' \<mapsto> \<lparr>address = ''0xold'', abi = ''comet''\<rparr>]\<rparr>"

definition scriptExternal :: "(nat, string) External" where
  "scriptExternal =
     flakyExternal\<lparr>importModule :=
       (\<lambda>path. Inr (Truthy True (Inr (\<lambda>deploySpec s.
          (Inr [''comet'' \<mapsto> \<lparr>address = ''0xc'', abi = ''Comet''\<rparr>],
           s\<lparr>counter := counter s + 1\<rparr>)))))\<rparr>"

definition classExternal :: "(nat, string) External" where
  "classExternal =
     flakyExternal\<lparr>importModule :=
       (\<lambda>path. Inr (Truthy True
          (Inl (Error ''TypeError: Class constructor Deploy cannot be invoked without new''))))\<rparr>"

text \<open>A manager whose persisted roots hold the root \<open>timelock\<close>.\<close>

definition rootedManager :: "(nat, string) DeploymentManager" where
  "rootedManager =
     freshManager\<lparr>cache := exampleCache\<lparr>cachedRoots := [''timelock'' \<mapsto> ''0x71'']\<rparr>\<rparr>"

text \<open>
  What a crawl leaves in the cache: the roots it started from, then its aliases, then its
  proxies, written over the cache the crawler returned.
\<close>

abbreviation persisted :: "(Alias \<rightharpoonup> Address) \<Rightarrow> Spider \<Rightarrow> 'a Cache \<Rightarrow> 'a Cache" where
  "persisted roots crawl c \<equiv>
     Proxies_storeProxies (Aliases_storeAliases (Roots_putRoots c roots) (aliases crawl))
       (proxies crawl)"

section \<open>Lemmas about the two passes\<close>

text \<open>A change made through the governance manager is seen on the governance manager.\<close>

lemma govDeploymentManager_updateGov:
  "govDeploymentManager (updateGov f w) = f (govDeploymentManager w)"
  by (simp add: govDeploymentManager_def updateGov_def split: option.splits)

lemma migrateOne_skip:
  assumes "prepare (actions m) (world ctx) = (Inr a, w1)"
      and "isEnacted (actions m) w1 = (Inr True, w2)"
  shows "migrateOne m ctx =
           (Inr (), ctx\<lparr>world := w2, calls := calls ctx @ [Prepare (name m), IsEnacted (name m)]\<rparr>)"
  using assms by (simp add: migrateOne_def andThen_def call_def resolve_def)

lemma migrateOne_enact:
  assumes "prepare (actions m) (world ctx) = (Inr a, w1)"
      and "isEnacted (actions m) w1 = (Inr False, w2)"
      and "enact (actions m) a w2 = (r, w3)"
  shows "migrateOne m ctx =
           (r, ctx\<lparr>world := w3,
                   calls := calls ctx @ [Prepare (name m), IsEnacted (name m), Enact (name m) a]\<rparr>)"
  using assms by (simp add: migrateOne_def andThen_def call_def resolve_def)

lemma migrateOne_prepare_fails:
  assumes "prepare (actions m) (world ctx) = (Inl e, w1)"
  shows "migrateOne m ctx = (Inl e, ctx\<lparr>world := w1, calls := calls ctx @ [Prepare (name m)]\<rparr>)"
  using assms by (simp add: migrateOne_def andThen_def call_def resolve_def)

lemma migrateOne_check_fails:
  assumes "prepare (actions m) (world ctx) = (Inr a, w1)"
      and "isEnacted (actions m) w1 = (Inl e, w2)"
  shows "migrateOne m ctx =
           (Inl e, ctx\<lparr>world := w2, calls := calls ctx @ [Prepare (name m), IsEnacted (name m)]\<rparr>)"
  using assms by (simp add: migrateOne_def andThen_def call_def resolve_def)

text \<open>The calls of one step: the check always stands between prepare and enact.\<close>

lemma migrateOne_calls:
  "\<exists>a. calls (snd (migrateOne m ctx)) = calls ctx @ [Prepare (name m)]
     \<or> calls (snd (migrateOne m ctx)) = calls ctx @ [Prepare (name m), IsEnacted (name m)]
     \<or> calls (snd (migrateOne m ctx))
         = calls ctx @ [Prepare (name m), IsEnacted (name m), Enact (name m) a]"
proof (cases "prepare (actions m) (world ctx)")
  case (Pair r w1)
  show ?thesis
  proof (cases r)
    case (Inl e)
    with Pair show ?thesis by (simp add: migrateOne_prepare_fails)
  next
    case (Inr a)
    note prep = Pair[unfolded Inr]
    obtain q w2 where chk: "isEnacted (actions m) w1 = (q, w2)" by (cases "isEnacted (actions m) w1")
    show ?thesis
    proof (cases q)
      case (Inl e)
      with prep chk show ?thesis by (simp add: migrateOne_check_fails)
    next
      case (Inr en)
      show ?thesis
      proof (cases en)
        case True
        with prep chk Inr show ?thesis by (simp add: migrateOne_skip)
      next
        case False
        obtain r3 w3 where "enact (actions m) a w2 = (r3, w3)" by (cases "enact (actions m) a w2")
        with prep chk Inr False have "migrateOne m ctx =
           (r3, ctx\<lparr>world := w3,
                   calls := calls ctx @ [Prepare (name m), IsEnacted (name m), Enact (name m) a]\<rparr>)"
          by (simp add: migrateOne_enact)
        then show ?thesis by auto
      qed
    qed
  qed
qed

lemma second_pass_no_enact:
  assumes "\<forall>m\<in>set ms. \<forall>w. I w \<longrightarrow>
             (\<forall>a w1. prepare (actions m) w = (Inr a, w1) \<longrightarrow>
                (\<exists>w2. isEnacted (actions m) w1 = (Inr True, w2) \<and> I w2))"
      and "I (world ctx)"
  shows "filter (enactsOf n) (calls (snd (forEach migrateOne ms ctx))) = filter (enactsOf n) (calls ctx)"
  using assms
proof (induction ms arbitrary: ctx)
  case Nil
  then show ?case by simp
next
  case (Cons m ms)
  obtain r w1 where prep: "prepare (actions m) (world ctx) = (r, w1)"
    by (cases "prepare (actions m) (world ctx)")
  show ?case
  proof (cases r)
    case (Inl e)
    with prep show ?thesis by (simp add: migrateOne_prepare_fails)
  next
    case (Inr a)
    with prep Cons.prems obtain w2 where
      chk: "isEnacted (actions m) w1 = (Inr True, w2)" and inv: "I w2"
      by fastforce
    let ?c = "ctx\<lparr>world := w2, calls := calls ctx @ [Prepare (name m), IsEnacted (name m)]\<rparr>"
    have step: "migrateOne m ctx = (Inr (), ?c)"
      using prep Inr chk by (simp add: migrateOne_skip)
    have "filter (enactsOf n) (calls (snd (forEach migrateOne ms ?c))) = filter (enactsOf n) (calls ?c)"
      using Cons.prems inv by (intro Cons.IH) auto
    with step show ?thesis by simp
  qed
qed

lemma forEach_migrateOne_calls:
  "\<exists>t. calls (snd (forEach migrateOne ms ctx)) = calls ctx @ t"
proof (induction ms arbitrary: ctx)
  case Nil
  then show ?case by simp
next
  case (Cons m ms)
  obtain r c1 where step: "migrateOne m ctx = (r, c1)" by (cases "migrateOne m ctx")
  from migrateOne_calls[of m ctx] step obtain t1 where t1: "calls c1 = calls ctx @ t1"
    by auto
  show ?case
  proof (cases r)
    case (Inl e)
    with step t1 show ?thesis by simp
  next
    case (Inr u)
    from Cons.IH[of c1] obtain t where "calls (snd (forEach migrateOne ms c1)) = calls c1 @ t" ..
    with step Inr t1 show ?thesis by simp
  qed
qed

lemma mset_insertBy: "mset (insertBy cmp x xs) = add_mset x (mset xs)"
  by (induction xs) auto

lemma mset_sortBy: "mset (sortBy cmp xs) = mset xs"
  by (induction xs) (auto simp: sortBy_def mset_insertBy)

lemma set_sortMigrations: "set (sortMigrations R ms) = set ms"
  unfolding sortMigrations_def using mset_sortBy[of _ ms] by (metis set_mset_mset)

section \<open>The migration pass\<close>

lemma firstPass_calls:
  "calls firstPass =
     [Prepare ''1000_a'', IsEnacted ''1000_a'', Enact ''1000_a'' ''artifact of 1000_a'',
      Prepare ''1000_b'', IsEnacted ''1000_b'', Enact ''1000_b'' ''artifact of 1000_b'']"
  by (simp add: firstPass_def twoUnits_def migrationSolution_def exampleRuntime_def
      exampleContext_def exampleManager_def sortMigrations_def sortBy_def tracked_def
      migrateOne_def andThen_def call_def resolve_def isEnacted_def updateGov_def
      enactOnChain_def)

lemma firstPass_world:
  "world firstPass =
     \<lparr>deploymentManager = exampleManager\<lparr>hre := [''1000_b'', ''1000_a'']\<rparr>,
      auxiliaryDeploymentManager = None\<rparr>"
  by (simp add: firstPass_def twoUnits_def migrationSolution_def exampleRuntime_def
      exampleContext_def exampleManager_def sortMigrations_def sortBy_def tracked_def
      migrateOne_def andThen_def call_def resolve_def isEnacted_def updateGov_def
      enactOnChain_def)

text \<open>
  Claim C2. In every step of the migration pass the check \<open>isEnacted\<close> stands between
  \<open>prepare\<close> and \<open>enact\<close>, and when it answers true the step issues \<open>prepare\<close> and
  the check and nothing else. For a whole Solution: let \<open>I\<close> be a condition on the world
  under which every unit of the subset answers \<open>enacted\<close> with true and which \<open>prepare\<close>
  and the check keep (the state after the units have been enacted). A run of the Solution
  that starts from such a world issues no \<open>enact\<close> call for any unit.
\<close>

theorem enact_not_issued_when_enacted:
  fixes ms :: "('h, 'a) Migration list"
  assumes inv: "\<forall>m\<in>set ms. \<forall>w. I w \<longrightarrow>
             (\<forall>a w1. prepare (actions m) w = (Inr a, w1) \<longrightarrow>
                (\<exists>w2. isEnacted (actions m) w1 = (Inr True, w2) \<and> I w2))"
      and start: "\<forall>p w1. impersonateProposer R (world ctx) = (Inr p, w1) \<longrightarrow>
             I (updateGov (\<lambda>g. g\<lparr>signers := p # signers g\<rparr>) w1)"
  shows "(\<forall>n. enactCalls n (issued ctx (snd (migrationSolution R ms ctx))) = 0)
       \<and> (\<forall>(m :: ('h, 'a) Migration) c a w1 w2.
            prepare (actions m) (world c) = (Inr a, w1) \<and> isEnacted (actions m) w1 = (Inr True, w2)
            \<longrightarrow> migrateOne m c =
                  (Inr (), c\<lparr>world := w2,
                            calls := calls c @ [Prepare (name m), IsEnacted (name m)]\<rparr>))
       \<and> (\<forall>(m :: ('h, 'a) Migration) c. \<exists>a.
            calls (snd (migrateOne m c)) = calls c @ [Prepare (name m)]
          \<or> calls (snd (migrateOne m c)) = calls c @ [Prepare (name m), IsEnacted (name m)]
          \<or> calls (snd (migrateOne m c))
              = calls c @ [Prepare (name m), IsEnacted (name m), Enact (name m) a])"
proof (intro conjI allI)
  fix n
  obtain r w1 where imp: "impersonateProposer R (world ctx) = (r, w1)"
    by (cases "impersonateProposer R (world ctx)")
  show "enactCalls n (issued ctx (snd (migrationSolution R ms ctx))) = 0"
  proof (cases r)
    case (Inl e)
    with imp show ?thesis by (simp add: migrationSolution_def issued_def enactCalls_def)
  next
    case (Inr p)
    let ?c2 = "ctx\<lparr>world := updateGov (\<lambda>g. g\<lparr>signers := p # signers g\<rparr>) w1,
                    migrations := Some (sortMigrations R ms)\<rparr>"
    let ?c3 = "snd (forEach migrateOne (sortMigrations R ms) ?c2)"
    have I2: "I (world ?c2)" using start imp Inr by simp
    have inv': "\<forall>m\<in>set (sortMigrations R ms). \<forall>w. I w \<longrightarrow>
             (\<forall>a w1. prepare (actions m) w = (Inr a, w1) \<longrightarrow>
                (\<exists>w2. isEnacted (actions m) w1 = (Inr True, w2) \<and> I w2))"
      using inv by (simp add: set_sortMigrations)
    have same: "filter (enactsOf n) (calls ?c3) = filter (enactsOf n) (calls ?c2)"
      by (rule second_pass_no_enact[OF inv' I2])
    obtain t where t: "calls ?c3 = calls ?c2 @ t"
      using forEach_migrateOne_calls[of "sortMigrations R ms" ?c2] ..
    from same t have none: "filter (enactsOf n) t = []" by simp
    have "calls (snd (migrationSolution R ms ctx)) = calls ?c3"
      using imp Inr by (simp add: migrationSolution_def Let_def split: prod.splits sum.splits)
    with t have "issued ctx (snd (migrationSolution R ms ctx)) = t"
      by (simp add: issued_def)
    with none show ?thesis by (simp add: enactCalls_def)
  qed
next
  fix m :: "('h, 'a) Migration" and c a w1 w2
  show "prepare (actions m) (world c) = (Inr a, w1) \<and> isEnacted (actions m) w1 = (Inr True, w2)
            \<longrightarrow> migrateOne m c =
                  (Inr (), c\<lparr>world := w2,
                            calls := calls c @ [Prepare (name m), IsEnacted (name m)]\<rparr>)"
    by (simp add: migrateOne_skip)
next
  fix m :: "('h, 'a) Migration" and c
  show "\<exists>a.
            calls (snd (migrateOne m c)) = calls c @ [Prepare (name m)]
          \<or> calls (snd (migrateOne m c)) = calls c @ [Prepare (name m), IsEnacted (name m)]
          \<or> calls (snd (migrateOne m c))
              = calls c @ [Prepare (name m), IsEnacted (name m), Enact (name m) a]"
    by (rule migrateOne_calls)
qed

text \<open>
  The two tracked units are enacted once each by a first run of their Solution; the
  second run, from the context the first one left, issues no \<open>enact\<close> call.
\<close>

theorem enact_not_issued_when_enacted_witness:
  "bothEnacted (world firstPass)
   \<and> enactCalls ''1000_a'' (issued exampleContext firstPass) = 1
   \<and> enactCalls ''1000_b'' (issued exampleContext firstPass) = 1
   \<and> (\<forall>n. enactCalls n
             (issued firstPass (snd (migrationSolution exampleRuntime twoUnits firstPass))) = 0)"
proof -
  have inv: "\<forall>m\<in>set twoUnits. \<forall>w. bothEnacted w \<longrightarrow>
      (\<forall>a w1. prepare (actions m) w = (Inr a, w1) \<longrightarrow>
         (\<exists>w2. isEnacted (actions m) w1 = (Inr True, w2) \<and> bothEnacted w2))"
    by (auto simp: twoUnits_def tracked_def isEnacted_def bothEnacted_def)
  have start: "\<forall>p w1. impersonateProposer exampleRuntime (world firstPass) = (Inr p, w1) \<longrightarrow>
         bothEnacted (updateGov (\<lambda>g. g\<lparr>signers := p # signers g\<rparr>) w1)"
    by (simp add: firstPass_world exampleRuntime_def updateGov_def bothEnacted_def)
  have first: "enactCalls ''1000_a'' (issued exampleContext firstPass) = 1
             \<and> enactCalls ''1000_b'' (issued exampleContext firstPass) = 1"
    by (simp add: firstPass_calls issued_def enactCalls_def exampleContext_def)
  have enactedNow: "bothEnacted (world firstPass)"
    by (simp add: firstPass_world bothEnacted_def)
  from enact_not_issued_when_enacted[OF inv start] enactedNow first show ?thesis by blast
qed

section \<open>The verification pass\<close>

lemma verifyCalls_append: "verifyCalls (xs @ ys) = verifyCalls xs @ verifyCalls ys"
  by (induction xs rule: verifyCalls.induct) auto

lemma verifyOne_undefined:
  "verify (actions m) = None \<Longrightarrow> verifyOne m ctx = (Inr (), ctx)"
  by (simp add: verifyOne_def resolve_def)

lemma verifyOne_skip:
  assumes "verify (actions m) = Some v"
      and "isEnacted (actions m) (world ctx) = (Inr True, w1)"
  shows "verifyOne m ctx = (Inr (), ctx\<lparr>world := w1, calls := calls ctx @ [IsEnacted (name m)]\<rparr>)"
  using assms by (simp add: verifyOne_def andThen_def call_def resolve_def)

lemma verifyOne_verify:
  assumes "verify (actions m) = Some v"
      and "isEnacted (actions m) (world ctx) = (Inr False, w1)"
      and "v w1 = (r, w2)"
  shows "verifyOne m ctx =
           (r, ctx\<lparr>world := w2, calls := calls ctx @ [IsEnacted (name m), Verify (name m)]\<rparr>)"
  using assms by (simp add: verifyOne_def andThen_def call_def resolve_def)

lemma migrations_migrateOne: "migrations (snd (migrateOne m ctx)) = migrations ctx"
  by (simp add: migrateOne_def andThen_def call_def resolve_def split: prod.splits sum.splits)

lemma migrations_forEach_migrateOne:
  "migrations (snd (forEach migrateOne ms ctx)) = migrations ctx"
proof (induction ms arbitrary: ctx)
  case Nil
  then show ?case by simp
next
  case (Cons m ms)
  obtain r c1 where step: "migrateOne m ctx = (r, c1)" by (cases "migrateOne m ctx")
  with migrations_migrateOne[of m ctx] have "migrations c1 = migrations ctx" by simp
  with step Cons.IH[of c1] show ?case by (cases r) simp_all
qed

lemma migrations_migrationSolution:
  assumes "impersonateProposer R (world ctx) = (Inr p, w1)"
  shows "migrations (snd (migrationSolution R ms ctx)) = Some (sortMigrations R ms)"
proof -
  let ?c2 = "ctx\<lparr>world := updateGov (\<lambda>g. g\<lparr>signers := p # signers g\<rparr>) w1,
                  migrations := Some (sortMigrations R ms)\<rparr>"
  have "migrations (snd (migrationSolution R ms ctx))
          = migrations (snd (forEach migrateOne (sortMigrations R ms) ?c2))"
    using assms by (simp add: migrationSolution_def Let_def split: prod.splits sum.splits)
  then show ?thesis by (simp add: migrations_forEach_migrateOne)
qed

lemma verify_pass:
  assumes chk: "\<forall>m\<in>set ms. \<forall>w. I w \<longrightarrow> (\<exists>w1. isEnacted (actions m) w = (Inr (en m), w1) \<and> I w1)"
      and ver: "\<forall>m\<in>set ms. \<forall>v w. verify (actions m) = Some v \<and> I w \<longrightarrow> (\<exists>w1. v w = (Inr (), w1) \<and> I w1)"
      and start: "I (world ctx)"
  shows "\<exists>ctx' t. forEach verifyOne ms ctx = (Inr (), ctx') \<and> calls ctx' = calls ctx @ t
           \<and> verifyCalls t = map name (filter (\<lambda>m. verify (actions m) \<noteq> None \<and> \<not> en m) ms)"
  using assms
proof (induction ms arbitrary: ctx)
  case Nil
  then show ?case by simp
next
  case (Cons m ms)
  have "\<exists>c1 t1. verifyOne m ctx = (Inr (), c1) \<and> I (world c1) \<and> calls c1 = calls ctx @ t1
          \<and> verifyCalls t1 = (if verify (actions m) \<noteq> None \<and> \<not> en m then [name m] else [])"
  proof (cases "verify (actions m)")
    case None
    with Cons.prems(3) show ?thesis by (simp add: verifyOne_undefined)
  next
    case (Some v)
    from Cons.prems(1,3) obtain w1 where
      c: "isEnacted (actions m) (world ctx) = (Inr (en m), w1)" and i1: "I w1"
      by fastforce
    show ?thesis
    proof (cases "en m")
      case True
      with Some c i1 show ?thesis by (simp add: verifyOne_skip)
    next
      case False
      from Cons.prems(2) Some i1 obtain w2 where v: "v w1 = (Inr (), w2)" and i2: "I w2"
        by fastforce
      from Some c False v have "verifyOne m ctx =
           (Inr (), ctx\<lparr>world := w2, calls := calls ctx @ [IsEnacted (name m), Verify (name m)]\<rparr>)"
        by (simp add: verifyOne_verify)
      with Some False i2 show ?thesis by simp
    qed
  qed
  then obtain c1 t1 where step: "verifyOne m ctx = (Inr (), c1)" and i1: "I (world c1)"
      and t1: "calls c1 = calls ctx @ t1"
      and v1: "verifyCalls t1 = (if verify (actions m) \<noteq> None \<and> \<not> en m then [name m] else [])"
    by blast
  have "\<exists>ctx' t. forEach verifyOne ms c1 = (Inr (), ctx') \<and> calls ctx' = calls c1 @ t
           \<and> verifyCalls t = map name (filter (\<lambda>m. verify (actions m) \<noteq> None \<and> \<not> en m) ms)"
    using Cons.prems(1,2) i1 by (intro Cons.IH) auto
  then obtain ctx' t where rest: "forEach verifyOne ms c1 = (Inr (), ctx')"
      and t: "calls ctx' = calls c1 @ t"
      and vt: "verifyCalls t = map name (filter (\<lambda>m. verify (actions m) \<noteq> None \<and> \<not> en m) ms)"
    by blast
  have "forEach verifyOne (m # ms) ctx = (Inr (), ctx')" using step rest by simp
  moreover have "calls ctx' = calls ctx @ (t1 @ t)" using t1 t by simp
  moreover have "verifyCalls (t1 @ t)
      = map name (filter (\<lambda>m. verify (actions m) \<noteq> None \<and> \<not> en m) (m # ms))"
    using v1 vt by (simp add: verifyCalls_append)
  ultimately show ?case by blast
qed

lemma firstPass_migrations: "migrations firstPass = Some [tracked ''1000_a'', tracked ''1000_b'']"
proof -
  have "migrations firstPass = Some (sortMigrations exampleRuntime twoUnits)"
    unfolding firstPass_def by (rule migrations_migrationSolution) (simp add: exampleRuntime_def)
  also have "sortMigrations exampleRuntime twoUnits = [tracked ''1000_a'', tracked ''1000_b'']"
    by (simp add: sortMigrations_def sortBy_def twoUnits_def exampleRuntime_def tracked_def)
  finally show ?thesis .
qed

lemma flaggedPass_migrations:
  "migrations flaggedPass = Some [flagged ''1000_a'' True, flagged ''1000_b'' False]"
proof -
  have "migrations flaggedPass = Some (sortMigrations exampleRuntime flaggedUnits)"
    unfolding flaggedPass_def by (rule migrations_migrationSolution) (simp add: exampleRuntime_def)
  also have "sortMigrations exampleRuntime flaggedUnits
               = [flagged ''1000_a'' True, flagged ''1000_b'' False]"
    by (simp add: sortMigrations_def sortBy_def flaggedUnits_def exampleRuntime_def tracked_def
        flagged_def)
  finally show ?thesis .
qed

lemma flaggedPass_calls:
  "calls flaggedPass =
     [Prepare ''1000_a'', IsEnacted ''1000_a'',
      Prepare ''1000_b'', IsEnacted ''1000_b'', Enact ''1000_b'' ''artifact of 1000_b'']"
  by (simp add: flaggedPass_def flaggedUnits_def migrationSolution_def exampleRuntime_def
      exampleContext_def exampleManager_def sortMigrations_def sortBy_def tracked_def flagged_def
      migrateOne_def andThen_def call_def resolve_def isEnacted_def updateGov_def
      enactOnChain_def)

text \<open>
  Claim C1, as the code has it. The verification Solution walks the recorded subset in
  order and evaluates \<open>isEnacted\<close> then, during the verification pass. Where the answers
  are \<open>en\<close> and stay so along the pass (\<open>I\<close> is a condition on the world that the checks
  and the verifications keep), the Solution completes and has called \<open>verify\<close> on exactly
  the units that define it and whose answer is false, in the recorded order. A unit whose
  check answers true is passed over with the check alone.
\<close>

theorem verify_called_iff_not_enacted_at_check:
  fixes ms :: "('h, 'a) Migration list"
  assumes chk: "\<forall>m\<in>set ms. \<forall>w. I w \<longrightarrow> (\<exists>w1. isEnacted (actions m) w = (Inr (en m), w1) \<and> I w1)"
      and ver: "\<forall>m\<in>set ms. \<forall>v w. verify (actions m) = Some v \<and> I w \<longrightarrow> (\<exists>w1. v w = (Inr (), w1) \<and> I w1)"
      and recorded: "migrations ctx = Some ms"
      and start: "I (world ctx)"
  shows "(\<exists>ctx'. verifySolution ctx = (Inr (), ctx')
            \<and> verifyCalls (issued ctx ctx')
                = map name (filter (\<lambda>m. verify (actions m) \<noteq> None \<and> \<not> en m) ms))
       \<and> (\<forall>(m :: ('h, 'a) Migration) c v w1.
            verify (actions m) = Some v \<and> isEnacted (actions m) (world c) = (Inr True, w1)
            \<longrightarrow> verifyOne m c = (Inr (), c\<lparr>world := w1, calls := calls c @ [IsEnacted (name m)]\<rparr>))"
proof (intro conjI allI impI)
  from verify_pass[OF chk ver start] obtain ctx' t where
    "forEach verifyOne ms ctx = (Inr (), ctx')" "calls ctx' = calls ctx @ t"
    "verifyCalls t = map name (filter (\<lambda>m. verify (actions m) \<noteq> None \<and> \<not> en m) ms)"
    by blast
  then show "\<exists>ctx'. verifySolution ctx = (Inr (), ctx')
            \<and> verifyCalls (issued ctx ctx')
                = map name (filter (\<lambda>m. verify (actions m) \<noteq> None \<and> \<not> en m) ms)"
    using recorded by (simp add: verifySolution_def issued_def)
next
  fix m :: "('h, 'a) Migration" and c :: "('h, 'a) CometContext" and v w1
  assume "verify (actions m) = Some v \<and> isEnacted (actions m) (world c) = (Inr True, w1)"
  then show "verifyOne m c = (Inr (), c\<lparr>world := w1, calls := calls c @ [IsEnacted (name m)]\<rparr>)"
    by (simp add: verifyOne_skip)
qed

text \<open>
  Of two flagged units the one flagged as enacted is skipped by both passes and the other is
  enacted and then verified: its flag still answers false after \<open>enact\<close>.
\<close>

theorem verify_called_iff_not_enacted_at_check_witness:
  "calls flaggedPass =
     [Prepare ''1000_a'', IsEnacted ''1000_a'',
      Prepare ''1000_b'', IsEnacted ''1000_b'', Enact ''1000_b'' ''artifact of 1000_b'']
   \<and> fst (verifySolution flaggedPass) = Inr ()
   \<and> verifyCalls (issued flaggedPass (snd (verifySolution flaggedPass))) = [''1000_b'']"
proof -
  let ?ms = "[flagged ''1000_a'' True, flagged ''1000_b'' False]"
  let ?en = "\<lambda>m :: (string list, string) Migration. name m = ''1000_a''"
  have chk: "\<forall>m\<in>set ?ms. \<forall>w. True \<longrightarrow> (\<exists>w1. isEnacted (actions m) w = (Inr (?en m), w1) \<and> True)"
    by (simp add: flagged_def tracked_def isEnacted_def)
  have ver: "\<forall>m\<in>set ?ms. \<forall>v w. verify (actions m) = Some v \<and> True \<longrightarrow> (\<exists>w1. v w = (Inr (), w1) \<and> True)"
    by (auto simp: flagged_def tracked_def)
  have sel: "map name (filter (\<lambda>m. verify (actions m) \<noteq> None \<and> \<not> ?en m) ?ms) = [''1000_b'']"
    by (simp add: flagged_def tracked_def)
  from verify_called_iff_not_enacted_at_check[of ?ms "\<lambda>w. True" ?en flaggedPass,
      OF chk ver flaggedPass_migrations TrueI]
  obtain ctx' where "verifySolution flaggedPass = (Inr (), ctx')"
    "verifyCalls (issued flaggedPass ctx')
       = map name (filter (\<lambda>m. verify (actions m) \<noteq> None \<and> \<not> ?en m) ?ms)"
    by blast
  with sel flaggedPass_calls show ?thesis by simp
qed

text \<open>
  Claim C1 as stated fails on units whose predicate reads the state. Both tracked units are
  enacted by this run, once each, and both define \<open>verify\<close>; the verification Solution that
  follows checks both and verifies neither, since \<open>enacted\<close> holds by then.
\<close>

theorem fresh_unit_is_not_verified:
  "enactCalls ''1000_a'' (issued exampleContext firstPass) = 1
   \<and> enactCalls ''1000_b'' (issued exampleContext firstPass) = 1
   \<and> issued firstPass firstVerified = [IsEnacted ''1000_a'', IsEnacted ''1000_b'']
   \<and> verifyCalls (issued firstPass firstVerified) = []"
proof -
  have c: "calls firstVerified = calls firstPass @ [IsEnacted ''1000_a'', IsEnacted ''1000_b'']"
    unfolding firstVerified_def verifySolution_def
    by (simp add: firstPass_migrations firstPass_world firstPass_calls)
       (simp add: tracked_def verifyOne_def andThen_def call_def resolve_def isEnacted_def
          firstPass_world firstPass_calls exampleManager_def)
  then have "issued firstPass firstVerified = [IsEnacted ''1000_a'', IsEnacted ''1000_b'']"
    by (simp add: issued_def)
  moreover have "enactCalls ''1000_a'' (issued exampleContext firstPass) = 1
             \<and> enactCalls ''1000_b'' (issued exampleContext firstPass) = 1"
    by (simp add: firstPass_calls issued_def enactCalls_def exampleContext_def)
  ultimately show ?thesis by simp
qed

section \<open>Units without a predicate\<close>

text \<open>
  Claim C10. For a unit that defines no \<open>enacted\<close> predicate \<open>isEnacted\<close> answers false in
  every world and leaves it as it is. So its step of the migration pass, once \<open>prepare\<close>
  has returned an artifact, always calls \<open>enact\<close> with it, and its step of the verification
  pass always calls \<open>verify\<close>, when defined.
\<close>

theorem unit_without_predicate_is_always_enacted:
  fixes m :: "('h, 'a) Migration"
  assumes "enacted (actions m) = None"
  shows "(\<forall>w. isEnacted (actions m) w = (Inr False, w))
       \<and> (\<forall>(ctx :: ('h, 'a) CometContext) a w1 r w2.
            prepare (actions m) (world ctx) = (Inr a, w1) \<and> enact (actions m) a w1 = (r, w2)
            \<longrightarrow> migrateOne m ctx =
                  (r, ctx\<lparr>world := w2,
                          calls := calls ctx
                                   @ [Prepare (name m), IsEnacted (name m), Enact (name m) a]\<rparr>))
       \<and> (\<forall>(ctx :: ('h, 'a) CometContext) v r w1.
            verify (actions m) = Some v \<and> v (world ctx) = (r, w1)
            \<longrightarrow> verifyOne m ctx =
                  (r, ctx\<lparr>world := w1,
                          calls := calls ctx @ [IsEnacted (name m), Verify (name m)]\<rparr>))"
proof -
  have ie: "\<And>w. isEnacted (actions m) w = (Inr False, w)"
    using assms by (simp add: isEnacted_def)
  show ?thesis
    using ie by (auto simp: migrateOne_enact verifyOne_verify)
qed

text \<open>
  Two runs of the Solution of an untracked unit enact it twice; the verification Solution
  then verifies it.
\<close>

theorem unit_without_predicate_is_always_enacted_witness:
  "enacted (actions (untracked ''1000_a'')) = None
   \<and> isEnacted (actions (untracked ''1000_a'')) (world untrackedTwice)
       = (Inr False, world untrackedTwice)
   \<and> calls untrackedTwice =
       [Prepare ''1000_a'', IsEnacted ''1000_a'', Enact ''1000_a'' ''artifact of 1000_a'',
        Prepare ''1000_a'', IsEnacted ''1000_a'', Enact ''1000_a'' ''artifact of 1000_a'']
   \<and> enactCalls ''1000_a'' (calls untrackedTwice) = 2
   \<and> verifyCalls (calls (snd (verifySolution untrackedTwice))) = [''1000_a'']"
proof -
  have none: "enacted (actions (untracked ''1000_a'')) = None"
    by (simp add: untracked_def)
  have c: "calls untrackedTwice =
       [Prepare ''1000_a'', IsEnacted ''1000_a'', Enact ''1000_a'' ''artifact of 1000_a'',
        Prepare ''1000_a'', IsEnacted ''1000_a'', Enact ''1000_a'' ''artifact of 1000_a'']"
    by (simp add: untrackedTwice_def migrationSolution_def exampleRuntime_def
      exampleContext_def exampleManager_def sortMigrations_def sortBy_def tracked_def untracked_def
      migrateOne_def andThen_def call_def resolve_def isEnacted_def updateGov_def
      enactOnChain_def)
  have v: "verifyCalls (calls (snd (verifySolution untrackedTwice))) = [''1000_a'']"
    by (simp add: untrackedTwice_def migrationSolution_def exampleRuntime_def
      exampleContext_def exampleManager_def sortMigrations_def sortBy_def tracked_def untracked_def
      migrateOne_def andThen_def call_def resolve_def isEnacted_def updateGov_def
      enactOnChain_def verifySolution_def verifyOne_def)
  from unit_without_predicate_is_always_enacted[OF none] none c v show ?thesis
    by (simp add: enactCalls_def)
qed

section \<open>The order of replay\<close>

lemma set_insertBy: "set (insertBy cmp x xs) = insert x (set xs)"
  by (induction xs) auto

lemma sorted_insertBy:
  assumes total: "\<And>a b. cmp a b \<le> 0 \<or> cmp b a \<le> 0"
      and trans: "\<And>a b c. cmp a b \<le> 0 \<Longrightarrow> cmp b c \<le> 0 \<Longrightarrow> cmp a c \<le> 0"
      and sorted: "sorted_wrt (\<lambda>a b. cmp a b \<le> 0) xs"
  shows "sorted_wrt (\<lambda>a b. cmp a b \<le> 0) (insertBy cmp x xs)"
  using sorted
proof (induction xs)
  case Nil
  then show ?case by simp
next
  case (Cons y ys)
  show ?case
  proof (cases "cmp x y \<le> 0")
    case True
    with Cons.prems show ?thesis by (auto intro: trans)
  next
    case False
    with total[of x y] have "cmp y x \<le> 0" by simp
    with False Cons show ?thesis by (auto simp: set_insertBy)
  qed
qed

lemma sorted_sortBy:
  assumes total: "\<And>a b. cmp a b \<le> 0 \<or> cmp b a \<le> 0"
      and trans: "\<And>a b c. cmp a b \<le> 0 \<Longrightarrow> cmp b c \<le> 0 \<Longrightarrow> cmp a c \<le> 0"
  shows "sorted_wrt (\<lambda>a b. cmp a b \<le> 0) (sortBy cmp xs)"
proof (induction xs)
  case Nil
  then show ?case by (simp add: sortBy_def)
next
  case (Cons x xs)
  have "sortBy cmp (x # xs) = insertBy cmp x (sortBy cmp xs)" by (simp add: sortBy_def)
  with Cons show ?case using sorted_insertBy[of cmp "sortBy cmp xs" x] total trans by metis
qed

lemma sorted_wrt_unique:
  assumes "sorted_wrt le xs" and "sorted_wrt le ys" and "mset xs = mset ys"
      and antisym: "\<And>a b. a \<in> set xs \<Longrightarrow> b \<in> set xs \<Longrightarrow> le a b \<Longrightarrow> le b a \<Longrightarrow> a = b"
  shows "xs = ys"
  using assms
proof (induction xs arbitrary: ys)
  case Nil
  then show ?case by simp
next
  case (Cons x xs)
  from Cons.prems(3) obtain y ys' where ys: "ys = y # ys'" by (cases ys) auto
  have sets: "set (x # xs) = set ys" using Cons.prems(3) by (metis set_mset_mset)
  have "x = y"
  proof (rule ccontr)
    assume ne: "x \<noteq> y"
    from sets ys ne have "x \<in> set ys'" by auto
    with Cons.prems(2) ys have yx: "le y x" by simp
    from sets ys ne have yin: "y \<in> set xs" by auto
    with Cons.prems(1) have xy: "le x y" by simp
    from Cons.prems(4)[of x y] yin xy yx ne show False by simp
  qed
  moreover from this Cons.prems(3) ys have "mset xs = mset ys'" by simp
  with Cons.IH[of ys'] Cons.prems ys have "xs = ys'" by simp
  ultimately show ?case using ys by simp
qed

lemma prepareCalls_append: "prepareCalls (xs @ ys) = prepareCalls xs @ prepareCalls ys"
  by (induction xs rule: prepareCalls.induct) auto

lemma forEach_migrateOne_prepared:
  "forEach migrateOne ms ctx = (Inr u, ctx')
     \<Longrightarrow> \<exists>t. calls ctx' = calls ctx @ t \<and> prepareCalls t = map name ms"
proof (induction ms arbitrary: ctx)
  case Nil
  then show ?case by simp
next
  case (Cons m ms)
  obtain r c1 where step: "migrateOne m ctx = (r, c1)" by (cases "migrateOne m ctx")
  with Cons.prems obtain u1 where r: "r = Inr u1" and rest: "forEach migrateOne ms c1 = (Inr u, ctx')"
    by (cases r) auto
  from migrateOne_calls[of m ctx] step obtain t1 where
    t1: "calls c1 = calls ctx @ t1" and p1: "prepareCalls t1 = [name m]"
    by auto
  from Cons.IH[OF rest] obtain t where "calls ctx' = calls c1 @ t" "prepareCalls t = map name ms"
    by blast
  with t1 p1 have "calls ctx' = calls ctx @ (t1 @ t) \<and> prepareCalls (t1 @ t) = map name (m # ms)"
    by (simp add: prepareCalls_append)
  then show ?case by blast
qed

lemma migrationSolution_replays:
  assumes "migrationSolution R ms ctx = (Inr u, ctx')"
  shows "migrations ctx' = Some (sortMigrations R ms)
       \<and> prepareCalls (issued ctx ctx') = map name (sortMigrations R ms)"
proof -
  obtain r w1 where imp: "impersonateProposer R (world ctx) = (r, w1)"
    by (cases "impersonateProposer R (world ctx)")
  with assms obtain p where r: "r = Inr p" by (cases r) (auto simp: migrationSolution_def)
  let ?c2 = "ctx\<lparr>world := updateGov (\<lambda>g. g\<lparr>signers := p # signers g\<rparr>) w1,
                  migrations := Some (sortMigrations R ms)\<rparr>"
  obtain q c3 where loop: "forEach migrateOne (sortMigrations R ms) ?c2 = (q, c3)"
    by (cases "forEach migrateOne (sortMigrations R ms) ?c2")
  with assms imp r obtain u3 where q: "q = Inr u3"
    and c': "ctx' = c3\<lparr>world := updateGov (\<lambda>g. g\<lparr>signers := tl (signers g)\<rparr>) (world c3)\<rparr>"
    by (cases q) (auto simp: migrationSolution_def Let_def)
  from forEach_migrateOne_prepared[OF loop[unfolded q]] obtain t where
    "calls c3 = calls ?c2 @ t" "prepareCalls t = map name (sortMigrations R ms)" by blast
  with c' have "prepareCalls (issued ctx ctx') = map name (sortMigrations R ms)"
    by (simp add: issued_def)
  moreover have "migrations ctx' = Some (sortMigrations R ms)"
    using migrations_migrationSolution[OF imp[unfolded r], of ms] assms by simp
  ultimately show ?thesis by simp
qed

lemma codeUnitCompare_total: "codeUnitCompare a b \<le> 0 \<or> codeUnitCompare b a \<le> 0"
  by (induction a b rule: codeUnitCompare.induct) auto

lemma codeUnitCompare_trans:
  "codeUnitCompare a b \<le> 0 \<Longrightarrow> codeUnitCompare b c \<le> 0 \<Longrightarrow> codeUnitCompare a c \<le> 0"
proof (induction a arbitrary: b c)
  case Nil
  then show ?case by (cases c) auto
next
  case (Cons x xs)
  from Cons.prems(1) obtain y ys where b: "b = y # ys" by (cases b) auto
  from Cons.prems(2) b obtain z zs where c: "c = z # zs" by (cases c) auto
  from Cons.prems b c Cons.IH[of ys zs] show ?case
    by (auto split: if_splits)
qed

text \<open>
  Claim C4. The comparison is the host's \<open>localeCompare\<close>, taken as it is: a total and
  transitive comparison of names. Names identify units, so no two units of a subset compare
  as equal. Then the sorted list is the same for every discovery order of the subset, it is
  ordered by the comparison and holds the units of the subset; a Solution that completes
  has recorded it on the context and has prepared the units in that order. For the two
  units named \<open>1000_a\<close> and \<open>1000_b\<close>, where the comparison puts \<open>1000_b\<close> after
  \<open>1000_a\<close>, both discovery orders are replayed as \<open>1000_a\<close>, \<open>1000_b\<close>.
\<close>

theorem replay_order_is_sorted_by_name:
  fixes ms ms' :: "('h, 'a) Migration list"
  assumes total: "\<forall>a b. localeCompare R a b \<le> 0 \<or> localeCompare R b a \<le> 0"
      and trans: "\<forall>a b c. localeCompare R a b \<le> 0 \<and> localeCompare R b c \<le> 0
                    \<longrightarrow> localeCompare R a c \<le> 0"
      and noTies: "\<forall>a\<in>set ms. \<forall>b\<in>set ms.
                     localeCompare R (name a) (name b) \<le> 0 \<and> localeCompare R (name b) (name a) \<le> 0
                     \<longrightarrow> a = b"
      and discovery: "mset ms' = mset ms"
  shows "sortMigrations R ms' = sortMigrations R ms
       \<and> sorted_wrt (\<lambda>a b. localeCompare R (name a) (name b) \<le> 0) (sortMigrations R ms)
       \<and> mset (sortMigrations R ms) = mset ms
       \<and> (\<forall>(ctx :: ('h, 'a) CometContext) ctx'.
            migrationSolution R ms' ctx = (Inr (), ctx')
            \<longrightarrow> migrations ctx' = Some (sortMigrations R ms)
                \<and> prepareCalls (issued ctx ctx') = map name (sortMigrations R ms))
       \<and> (\<forall>(a :: ('h, 'a) Migration) b.
            name a = ''1000_a'' \<and> name b = ''1000_b'' \<and> 0 < localeCompare R ''1000_b'' ''1000_a''
            \<longrightarrow> map name (sortMigrations R [b, a]) = [''1000_a'', ''1000_b'']
                \<and> map name (sortMigrations R [a, b]) = [''1000_a'', ''1000_b''])"
proof -
  let ?cmp = "\<lambda>(a :: ('h, 'a) Migration) b. localeCompare R (name a) (name b)"
  have tot: "\<And>a b. ?cmp a b \<le> 0 \<or> ?cmp b a \<le> 0" using total by blast
  have tr: "\<And>a b c. ?cmp a b \<le> 0 \<Longrightarrow> ?cmp b c \<le> 0 \<Longrightarrow> ?cmp a c \<le> 0" using trans by blast
  have s: "sorted_wrt (\<lambda>a b. ?cmp a b \<le> 0) (sortMigrations R ms)"
    unfolding sortMigrations_def by (rule sorted_sortBy[of ?cmp, OF tot tr])
  have s': "sorted_wrt (\<lambda>a b. ?cmp a b \<le> 0) (sortMigrations R ms')"
    unfolding sortMigrations_def by (rule sorted_sortBy[of ?cmp, OF tot tr])
  have m: "mset (sortMigrations R ms) = mset ms" by (simp add: sortMigrations_def mset_sortBy)
  have m': "mset (sortMigrations R ms') = mset ms" by (simp add: sortMigrations_def mset_sortBy discovery)
  have eq: "sortMigrations R ms = sortMigrations R ms'"
  proof (rule sorted_wrt_unique[OF s s'])
    show "mset (sortMigrations R ms) = mset (sortMigrations R ms')" using m m' by simp
  next
    fix a b
    assume "a \<in> set (sortMigrations R ms)" "b \<in> set (sortMigrations R ms)"
      "?cmp a b \<le> 0" "?cmp b a \<le> 0"
    with noTies show "a = b" by (simp add: set_sortMigrations)
  qed
  have ex: "\<forall>(a :: ('h, 'a) Migration) b.
            name a = ''1000_a'' \<and> name b = ''1000_b'' \<and> 0 < localeCompare R ''1000_b'' ''1000_a''
            \<longrightarrow> map name (sortMigrations R [b, a]) = [''1000_a'', ''1000_b'']
                \<and> map name (sortMigrations R [a, b]) = [''1000_a'', ''1000_b'']"
  proof (intro allI impI)
    fix a b :: "('h, 'a) Migration"
    assume h: "name a = ''1000_a'' \<and> name b = ''1000_b'' \<and> 0 < localeCompare R ''1000_b'' ''1000_a''"
    with total have "localeCompare R ''1000_a'' ''1000_b'' \<le> 0"
      by (metis not_less)
    with h show "map name (sortMigrations R [b, a]) = [''1000_a'', ''1000_b'']
                \<and> map name (sortMigrations R [a, b]) = [''1000_a'', ''1000_b'']"
      by (simp add: sortMigrations_def sortBy_def)
  qed
  from eq s m ex show ?thesis
    using migrationSolution_replays[of R ms'] by simp
qed

text \<open>
  With the comparison by characters: the two tracked units, discovered as b, a or as a, b,
  are sorted to a, b, and the first run prepared them in that order.
\<close>

theorem replay_order_is_sorted_by_name_witness:
  "sortMigrations exampleRuntime [tracked ''1000_a'', tracked ''1000_b'']
     = sortMigrations exampleRuntime twoUnits
   \<and> map name (sortMigrations exampleRuntime twoUnits) = [''1000_a'', ''1000_b'']
   \<and> prepareCalls (issued exampleContext firstPass) = [''1000_a'', ''1000_b'']"
proof -
  have total: "\<forall>a b. localeCompare exampleRuntime a b \<le> 0 \<or> localeCompare exampleRuntime b a \<le> 0"
    by (simp add: exampleRuntime_def codeUnitCompare_total)
  have trans: "\<forall>a b c. localeCompare exampleRuntime a b \<le> 0 \<and> localeCompare exampleRuntime b c \<le> 0
                    \<longrightarrow> localeCompare exampleRuntime a c \<le> 0"
    using codeUnitCompare_trans by (auto simp: exampleRuntime_def)
  have noTies: "\<forall>a\<in>set twoUnits. \<forall>b\<in>set twoUnits.
                     localeCompare exampleRuntime (name a) (name b) \<le> 0
                     \<and> localeCompare exampleRuntime (name b) (name a) \<le> 0
                     \<longrightarrow> a = b"
    by (simp add: twoUnits_def exampleRuntime_def tracked_def)
  have discovery: "mset [tracked ''1000_a'', tracked ''1000_b''] = mset twoUnits"
    by (simp add: twoUnits_def)
  have names: "map name (sortMigrations exampleRuntime twoUnits) = [''1000_a'', ''1000_b'']"
    by (simp add: sortMigrations_def sortBy_def twoUnits_def exampleRuntime_def tracked_def)
  have calls: "prepareCalls (issued exampleContext firstPass) = [''1000_a'', ''1000_b'']"
    by (simp add: firstPass_calls issued_def exampleContext_def)
  from replay_order_is_sorted_by_name[OF total trans noTies discovery] names calls
  show ?thesis by simp
qed

section \<open>The Solutions of a pool\<close>

lemma empty_once_in_subseqs: "length (filter (\<lambda>l. l = []) (subseqs xs)) = 1"
  by (induction xs) (auto simp: Let_def filter_map o_def)

lemma nonempty_subseqs: "length (filter (\<lambda>l. l \<noteq> []) (subseqs xs)) = 2 ^ length xs - 1"
proof -
  have "length (filter (\<lambda>l. l = []) (subseqs xs)) + length (filter (\<lambda>l. l \<noteq> []) (subseqs xs))
          = length (subseqs xs)"
    by (rule sum_length_filter_compl)
  then show ?thesis by (simp add: empty_once_in_subseqs length_subseqs)
qed

lemma solvePaths_cases:
  "solvePaths env pool =
     (if truthy env \<or> pool = [] then subsets pool else filter (\<lambda>l. l \<noteq> []) (subsets pool))"
proof (cases "truthy env \<or> pool = []")
  case True
  then show ?thesis
    by (auto simp: solvePaths_def subsets_def Let_def)
next
  case False
  then have "1 \<le> length pool" by (cases pool) simp_all
  then have "(2::nat) ^ 1 \<le> 2 ^ length pool" by (rule power_increasing) simp
  then have "1 < length (subseqs pool)" by (simp add: length_subseqs)
  with False show ?thesis
    by (simp add: solvePaths_def subsets_def Let_def)
qed

text \<open>
  Claim C3, as the code has it. \<open>MigrationConstraint.solve\<close> pushes one Solution for each
  subset of the pool it keeps. It keeps all \<open>2 ^ N\<close> of them when \<open>WITHOUT_MIGRATIONS\<close> is
  set or the pool is empty, where the empty subset is the only one; otherwise it leaves the
  empty subset out and keeps the other \<open>2 ^ N - 1\<close>.
\<close>

theorem one_solution_per_kept_subset:
  "MigrationConstraint_solve R env pool
     = map (migrationSolution R)
         (if truthy env \<or> pool = [] then subsets pool else filter (\<lambda>l. l \<noteq> []) (subsets pool))
   \<and> length (MigrationConstraint_solve R env pool)
     = (if truthy env \<or> pool = [] then 2 ^ length pool else 2 ^ length pool - 1)"
  by (simp add: MigrationConstraint_solve_def solvePaths_cases subsets_def length_subseqs
      nonempty_subseqs)

text \<open>A pool of two units: three Solutions, and four with \<open>WITHOUT_MIGRATIONS\<close> set.\<close>

theorem one_solution_per_kept_subset_witness:
  "length (MigrationConstraint_solve exampleRuntime None twoUnits) = 3
   \<and> length (MigrationConstraint_solve exampleRuntime (Some ''1'') twoUnits) = 4"
  using one_solution_per_kept_subset[of exampleRuntime None twoUnits, THEN conjunct2]
    one_solution_per_kept_subset[of exampleRuntime "Some ''1''" twoUnits, THEN conjunct2]
  by (simp add: truthy_def twoUnits_def)

text \<open>
  Claim C3 as stated fails for the empty pool: with \<open>WITHOUT_MIGRATIONS\<close> unset the empty
  subset is to be left out, which would leave \<open>2 ^ 0 - 1 = 0\<close> Solutions, but the test
  \<open>migrationPaths.length > 1\<close> keeps it and there is one.
\<close>

theorem empty_pool_keeps_the_empty_subset:
  "\<not> truthy None
   \<and> length (MigrationConstraint_solve exampleRuntime None []) = 1
   \<and> length (MigrationConstraint_solve exampleRuntime None [])
       \<noteq> 2 ^ length ([] :: (string list, string) Migration list) - 1"
  by (simp add: truthy_def MigrationConstraint_solve_def solvePaths_def subsets_def)

section \<open>Artifacts\<close>

lemma storedArtifacts_updateGov_signers:
  "storedArtifacts (updateGov (\<lambda>g. g\<lparr>signers := f (signers g)\<rparr>) w) = storedArtifacts w"
  by (simp add: storedArtifacts_def updateGov_def split: option.splits)

lemma storedArtifacts_migrateOne:
  assumes prep: "\<forall>w. storedArtifacts (snd (prepare (actions m) w)) = storedArtifacts w"
      and chk: "\<forall>w. storedArtifacts (snd (isEnacted (actions m) w)) = storedArtifacts w"
      and en: "\<forall>a w. storedArtifacts (snd (enact (actions m) a w)) = storedArtifacts w"
  shows "storedArtifacts (world (snd (migrateOne m ctx))) = storedArtifacts (world ctx)"
proof -
  obtain r w1 where p: "prepare (actions m) (world ctx) = (r, w1)"
    by (cases "prepare (actions m) (world ctx)")
  with prep[rule_format, of "world ctx"] have s1: "storedArtifacts w1 = storedArtifacts (world ctx)"
    by simp
  show ?thesis
  proof (cases r)
    case (Inl e)
    with p s1 show ?thesis by (simp add: migrateOne_prepare_fails)
  next
    case (Inr a)
    obtain q w2 where c: "isEnacted (actions m) w1 = (q, w2)" by (cases "isEnacted (actions m) w1")
    with chk[rule_format, of w1] s1 have s2: "storedArtifacts w2 = storedArtifacts (world ctx)"
      by simp
    show ?thesis
    proof (cases q)
      case (Inl e)
      with p Inr c s2 show ?thesis by (simp add: migrateOne_check_fails)
    next
      case enq: (Inr b)
      show ?thesis
      proof (cases b)
        case True
        with p Inr c enq s2 show ?thesis by (simp add: migrateOne_skip)
      next
        case False
        obtain r3 w3 where e: "enact (actions m) a w2 = (r3, w3)"
          by (cases "enact (actions m) a w2")
        with en[rule_format, of a w2] s2 have "storedArtifacts w3 = storedArtifacts (world ctx)"
          by simp
        with p Inr c enq False e show ?thesis by (simp add: migrateOne_enact)
      qed
    qed
  qed
qed

lemma storedArtifacts_forEach_migrateOne:
  assumes "\<forall>m\<in>set ms. \<forall>w. storedArtifacts (snd (prepare (actions m) w)) = storedArtifacts w"
      and "\<forall>m\<in>set ms. \<forall>w. storedArtifacts (snd (isEnacted (actions m) w)) = storedArtifacts w"
      and "\<forall>m\<in>set ms. \<forall>a w. storedArtifacts (snd (enact (actions m) a w)) = storedArtifacts w"
  shows "storedArtifacts (world (snd (forEach migrateOne ms ctx))) = storedArtifacts (world ctx)"
  using assms
proof (induction ms arbitrary: ctx)
  case Nil
  then show ?case by simp
next
  case (Cons m ms)
  obtain r c1 where step: "migrateOne m ctx = (r, c1)" by (cases "migrateOne m ctx")
  have "storedArtifacts (world (snd (migrateOne m ctx))) = storedArtifacts (world ctx)"
    using Cons.prems by (intro storedArtifacts_migrateOne) simp_all
  with step have s1: "storedArtifacts (world c1) = storedArtifacts (world ctx)" by simp
  have "storedArtifacts (world (snd (forEach migrateOne ms c1))) = storedArtifacts (world c1)"
    using Cons.prems by (intro Cons.IH) simp_all
  with step s1 show ?case by (cases r) simp_all
qed

text \<open>
  Claim C8, as the code has it. The Solver keeps the artifact that \<open>prepare\<close> returned in
  a variable and hands it to \<open>enact\<close> in the same step; it never calls \<open>storeArtifact\<close>.
  Where the operations of the units and the impersonation leave the stored artifacts as
  they are, so does the whole Solution. \<open>storeArtifact\<close>, where it is called, stores under
  the migration's name, and \<open>readArtifact\<close> returns what was stored.
\<close>

theorem solver_hands_artifact_to_enact_and_stores_none:
  fixes ms :: "('h, 'a) Migration list"
  assumes prep: "\<forall>m\<in>set ms. \<forall>w. storedArtifacts (snd (prepare (actions m) w)) = storedArtifacts w"
      and chk: "\<forall>m\<in>set ms. \<forall>w. storedArtifacts (snd (isEnacted (actions m) w)) = storedArtifacts w"
      and en: "\<forall>m\<in>set ms. \<forall>a w. storedArtifacts (snd (enact (actions m) a w)) = storedArtifacts w"
      and imp: "\<forall>w. storedArtifacts (snd (impersonateProposer R w)) = storedArtifacts w"
  shows "storedArtifacts (world (snd (migrationSolution R ms ctx))) = storedArtifacts (world ctx)
       \<and> (\<forall>(m :: ('h, 'a) Migration) (c :: ('h, 'a) CometContext) a w1 w2 r w3.
            prepare (actions m) (world c) = (Inr a, w1)
            \<and> isEnacted (actions m) w1 = (Inr False, w2)
            \<and> enact (actions m) a w2 = (r, w3)
            \<longrightarrow> migrateOne m c =
                  (r, c\<lparr>world := w3,
                        calls := calls c @ [Prepare (name m), IsEnacted (name m), Enact (name m) a]\<rparr>))
       \<and> (\<forall>(X :: ('h, 'a) External) (m :: ('h, 'a) Migration) a s.
            readArtifact m (snd (storeArtifact X m a s)) = Some a)"
proof (intro conjI)
  obtain r w1 where i: "impersonateProposer R (world ctx) = (r, w1)"
    by (cases "impersonateProposer R (world ctx)")
  with imp[rule_format, of "world ctx"] have s1: "storedArtifacts w1 = storedArtifacts (world ctx)"
    by simp
  show "storedArtifacts (world (snd (migrationSolution R ms ctx))) = storedArtifacts (world ctx)"
  proof (cases r)
    case (Inl e)
    with i s1 show ?thesis by (simp add: migrationSolution_def)
  next
    case (Inr p)
    let ?c2 = "ctx\<lparr>world := updateGov (\<lambda>g. g\<lparr>signers := p # signers g\<rparr>) w1,
                    migrations := Some (sortMigrations R ms)\<rparr>"
    let ?c3 = "snd (forEach migrateOne (sortMigrations R ms) ?c2)"
    have "storedArtifacts (world ?c3) = storedArtifacts (world ?c2)"
      using prep chk en by (intro storedArtifacts_forEach_migrateOne) (simp_all add: set_sortMigrations)
    also have "\<dots> = storedArtifacts (world ctx)"
      using s1 storedArtifacts_updateGov_signers[of "\<lambda>sg. p # sg" w1] by simp
    finally have s3: "storedArtifacts (world ?c3) = storedArtifacts (world ctx)" .
    have "world (snd (migrationSolution R ms ctx)) = world ?c3
        \<or> world (snd (migrationSolution R ms ctx))
            = updateGov (\<lambda>g. g\<lparr>signers := tl (signers g)\<rparr>) (world ?c3)"
      using i Inr by (simp add: migrationSolution_def Let_def split: prod.splits sum.splits)
    with s3 storedArtifacts_updateGov_signers[of tl "world ?c3"] show ?thesis by auto
  qed
next
  show "\<forall>(m :: ('h, 'a) Migration) (c :: ('h, 'a) CometContext) a w1 w2 r w3.
            prepare (actions m) (world c) = (Inr a, w1)
            \<and> isEnacted (actions m) w1 = (Inr False, w2)
            \<and> enact (actions m) a w2 = (r, w3)
            \<longrightarrow> migrateOne m c =
                  (r, c\<lparr>world := w3,
                        calls := calls c @ [Prepare (name m), IsEnacted (name m), Enact (name m) a]\<rparr>)"
    by (simp add: migrateOne_enact)
next
  show "\<forall>(X :: ('h, 'a) External) (m :: ('h, 'a) Migration) a s.
            readArtifact m (snd (storeArtifact X m a s)) = Some a"
    by (simp add: readArtifact_def storeArtifact_def Cache_storeCache_def Cache_readCache_def Let_def)
qed

text \<open>The first run of the two tracked units changes no stored artifact.\<close>

theorem solver_hands_artifact_to_enact_and_stores_none_witness:
  "storedArtifacts (world firstPass) = storedArtifacts (world exampleContext)
   \<and> enactCalls ''1000_a'' (issued exampleContext firstPass) = 1"
proof -
  have prep: "\<forall>m\<in>set twoUnits. \<forall>w. storedArtifacts (snd (prepare (actions m) w)) = storedArtifacts w"
    by (simp add: twoUnits_def tracked_def)
  have chk: "\<forall>m\<in>set twoUnits. \<forall>w. storedArtifacts (snd (isEnacted (actions m) w)) = storedArtifacts w"
    by (simp add: twoUnits_def tracked_def isEnacted_def)
  have en: "\<forall>m\<in>set twoUnits. \<forall>a w. storedArtifacts (snd (enact (actions m) a w)) = storedArtifacts w"
    by (simp add: twoUnits_def tracked_def enactOnChain_def storedArtifacts_def)
  have imp: "\<forall>w. storedArtifacts (snd (impersonateProposer exampleRuntime w)) = storedArtifacts w"
    by (simp add: exampleRuntime_def)
  have "enactCalls ''1000_a'' (issued exampleContext firstPass) = 1"
    by (simp add: firstPass_calls issued_def enactCalls_def exampleContext_def)
  with solver_hands_artifact_to_enact_and_stores_none[OF prep chk en imp, of exampleContext]
  show ?thesis by (simp add: firstPass_def)
qed

text \<open>
  Claim C8 as stated fails: the run has prepared both units, and no artifact of either is
  in the store afterwards.
\<close>

theorem prepared_artifact_is_not_stored:
  "prepareCalls (issued exampleContext firstPass) = [''1000_a'', ''1000_b'']
   \<and> readArtifact (tracked ''1000_a'') (deploymentManager (world firstPass)) = None
   \<and> readArtifact (tracked ''1000_b'') (deploymentManager (world firstPass)) = None"
  by (simp add: firstPass_calls firstPass_world issued_def exampleContext_def readArtifact_def
      Cache_readCache_def exampleManager_def exampleCache_def)

section \<open>Retrying\<close>

lemma timers_backOff: "timers (backOff retries wait e s) = timers s @ [wait]"
  by (simp add: backOff_def resetSignersPendingCounts_def Let_def)

lemma retryFrom_resolves:
  assumes "fn s = (p, s1)" and "asyncCallWithTimeout p timeLimit = Inr r"
  shows "retryFrom fn retries timeLimit wait s = Some (Inr r, s1)"
  using assms by (subst retryFrom.simps) simp

lemma retryFrom_gives_up:
  assumes "fn s = (p, s1)" and "asyncCallWithTimeout p timeLimit = Inl e"
  shows "retryFrom fn 0 timeLimit wait s = Some (Inl e, s1)"
  using assms by (subst retryFrom.simps) simp

lemma retryFrom_tries_again:
  assumes "fn s = (p, s1)" and "asyncCallWithTimeout p timeLimit = Inl e" and "retries \<noteq> 0"
  shows "retryFrom fn retries timeLimit wait s
           = retryFrom fn (retries - 1) timeLimit (wait * 2) (backOff retries wait e s1)"
  using assms by (subst retryFrom.simps) simp

lemma retryFrom_exhausted:
  assumes fails: "\<forall>s. \<exists>e. asyncCallWithTimeout (fst (fn s)) timeLimit = Inl e"
      and quiet: "\<forall>s. timers (snd (fn s)) = timers s"
  shows "\<exists>sLast e. retryFrom fn (int n) timeLimit wait s = Some (Inl e, snd (fn sLast))
           \<and> asyncCallWithTimeout (fst (fn sLast)) timeLimit = Inl e
           \<and> timers (snd (fn sLast)) = timers s @ map (\<lambda>k. wait * 2 ^ k) [0..<n]"
proof (induction n arbitrary: s wait)
  case 0
  obtain p s1 where a: "fn s = (p, s1)" by (cases "fn s")
  from fails obtain e where e: "asyncCallWithTimeout (fst (fn s)) timeLimit = Inl e" by blast
  with a have "retryFrom fn (int 0) timeLimit wait s = Some (Inl e, snd (fn s))"
    by (simp add: retryFrom_gives_up)
  with e quiet show ?case by auto
next
  case (Suc n)
  obtain p s1 where a: "fn s = (p, s1)" by (cases "fn s")
  from fails obtain e where e: "asyncCallWithTimeout (fst (fn s)) timeLimit = Inl e" by blast
  let ?s2 = "backOff (int (Suc n)) wait e s1"
  have step: "retryFrom fn (int (Suc n)) timeLimit wait s = retryFrom fn (int n) timeLimit (wait * 2) ?s2"
    using retryFrom_tries_again[of fn s p s1 timeLimit e "int (Suc n)" wait] a e by simp
  from Suc.IH[of "wait * 2" ?s2] obtain sLast e' where
    r: "retryFrom fn (int n) timeLimit (wait * 2) ?s2 = Some (Inl e', snd (fn sLast))"
    and l: "asyncCallWithTimeout (fst (fn sLast)) timeLimit = Inl e'"
    and t: "timers (snd (fn sLast)) = timers ?s2 @ map (\<lambda>k. wait * 2 * 2 ^ k) [0..<n]"
    by blast
  have "timers s1 = timers s" using quiet[rule_format, of s] a by simp
  then have "timers ?s2 = timers s @ [wait]" by (simp add: timers_backOff)
  with t have "timers (snd (fn sLast)) = timers s @ map (\<lambda>k. wait * 2 ^ k) [0..<Suc n]"
    by (simp add: map_upt_Suc del: upt_Suc) 
  with step r l show ?case by metis
qed

lemma timers_deployAttempt: "timers (snd (deployAttempt X contractFile deployArgs s)) = timers s"
  by (simp add: deployAttempt_def deployOpts_def getSigner_def getSigners_def Let_def
      split: prod.splits)

lemmas attempt_defs = deployAttempt_def deployOpts_def getSigner_def getSigners_def
  flakyExternal_def downExternal_def slowExternal_def freshManager_def backOff_def
  resetSignersPendingCounts_def asyncCallWithTimeout_def getManagedSigner_def Let_def

text \<open>
  Claim C6. Let the attempts leave the record of the timers alone. With the defaults (5
  retries, 250 ms), if the first two attempts fail and the third resolves, \<open>retry\<close>
  returns what the third attempt resolved to, in the state that attempt left, after
  waiting 250 ms and then 500 ms and no more: three attempts. If every attempt fails,
  \<open>retry\<close> with \<open>n\<close> retries returns the error of the last attempt, the one made after
  \<open>n\<close> waits, each wait twice the one before. An attempt that outlasts the time limit is a
  failed attempt like any other: it uses up one retry and doubles the wait.
\<close>

theorem retry_doubles_the_wait_and_rethrows_the_last_error:
  fixes fn :: "('h, 'a) DeploymentManager \<Rightarrow> 'r promise \<times> ('h, 'a) DeploymentManager"
  assumes quiet: "\<forall>s. timers (snd (fn s)) = timers s"
  shows "(\<forall>s0 p1 s1 e1 p2 s2 e2 p3 s3 r.
            fn s0 = (p1, s1) \<and> asyncCallWithTimeout p1 timeLimit = Inl e1
          \<and> fn (backOff 5 250 e1 s1) = (p2, s2) \<and> asyncCallWithTimeout p2 timeLimit = Inl e2
          \<and> fn (backOff 4 500 e2 s2) = (p3, s3) \<and> asyncCallWithTimeout p3 timeLimit = Inr r
          \<longrightarrow> retry fn None timeLimit None s0 = Some (Inr r, s3)
              \<and> timers s3 = timers s0 @ [250, 500])
       \<and> (\<forall>n wait s.
            (\<forall>s. \<exists>e. asyncCallWithTimeout (fst (fn s)) timeLimit = Inl e)
            \<longrightarrow> (\<exists>sLast e.
                   retry fn (Some (int n)) timeLimit (Some wait) s = Some (Inl e, snd (fn sLast))
                 \<and> asyncCallWithTimeout (fst (fn sLast)) timeLimit = Inl e
                 \<and> timers (snd (fn sLast)) = timers s @ map (\<lambda>k. wait * 2 ^ k) [0..<n]))
       \<and> (\<forall>s p s1 t retries wait.
            fn s = (p, s1) \<and> t < after p \<and> retries \<noteq> 0
            \<longrightarrow> retry fn (Some retries) (Some t) (Some wait) s
                = retry fn (Some (retries - 1)) (Some t) (Some (wait * 2))
                    (backOff retries wait (Error ''Async call timeout limit reached'') s1))"
proof (intro conjI allI impI)
  fix s0 p1 s1 e1 p2 s2 e2 p3 s3 r
  assume h: "fn s0 = (p1, s1) \<and> asyncCallWithTimeout p1 timeLimit = Inl e1
          \<and> fn (backOff 5 250 e1 s1) = (p2, s2) \<and> asyncCallWithTimeout p2 timeLimit = Inl e2
          \<and> fn (backOff 4 500 e2 s2) = (p3, s3) \<and> asyncCallWithTimeout p3 timeLimit = Inr r"
  have "retryFrom fn 5 timeLimit 250 s0 = retryFrom fn 4 timeLimit 500 (backOff 5 250 e1 s1)"
    using retryFrom_tries_again[of fn s0 p1 s1 timeLimit e1 5 250] h by simp
  also have "\<dots> = retryFrom fn 3 timeLimit 1000 (backOff 4 500 e2 s2)"
    using retryFrom_tries_again[of fn "backOff 5 250 e1 s1" p2 s2 timeLimit e2 4 500] h by simp
  also have "\<dots> = Some (Inr r, s3)"
    using retryFrom_resolves[of fn "backOff 4 500 e2 s2" p3 s3 timeLimit r 3 1000] h by simp
  finally show "retry fn None timeLimit None s0 = Some (Inr r, s3)"
    by (simp add: retry_def)
  have "timers s1 = timers s0" using quiet[rule_format, of s0] h by simp
  moreover have "timers s2 = timers (backOff 5 250 e1 s1)"
    using quiet[rule_format, of "backOff 5 250 e1 s1"] h by simp
  moreover have "timers s3 = timers (backOff 4 500 e2 s2)"
    using quiet[rule_format, of "backOff 4 500 e2 s2"] h by simp
  ultimately show "timers s3 = timers s0 @ [250, 500]"
    by (simp add: timers_backOff)
next
  fix n wait s
  assume "\<forall>s. \<exists>e. asyncCallWithTimeout (fst (fn s)) timeLimit = Inl e"
  from retryFrom_exhausted[OF this quiet, of n wait s]
  show "\<exists>sLast e.
                   retry fn (Some (int n)) timeLimit (Some wait) s = Some (Inl e, snd (fn sLast))
                 \<and> asyncCallWithTimeout (fst (fn sLast)) timeLimit = Inl e
                 \<and> timers (snd (fn sLast)) = timers s @ map (\<lambda>k. wait * 2 ^ k) [0..<n]"
    by (simp add: retry_def)
next
  fix s p s1 t wait and retries :: int
  assume h: "fn s = (p, s1) \<and> t < after p \<and> retries \<noteq> 0"
  then have "asyncCallWithTimeout p (Some t) = Inl (Error ''Async call timeout limit reached'')"
    by (simp add: asyncCallWithTimeout_def)
  with h show "retry fn (Some retries) (Some t) (Some wait) s
                = retry fn (Some (retries - 1)) (Some t) (Some (wait * 2))
                    (backOff retries wait (Error ''Async call timeout limit reached'') s1)"
    using retryFrom_tries_again[of fn s p s1 "Some t" _ retries wait] by (simp add: retry_def)
qed

text \<open>
  On the flaky runtime the construction has resolved on the third attempt, after waits of
  250 and 500 ms. On the runtime that is down, two retries end with the error of the third
  attempt and the default five with that of the sixth. On the slow runtime with a limit of
  five seconds and one retry, both attempts time out.
\<close>

theorem retry_doubles_the_wait_and_rethrows_the_last_error_witness:
  "map_option (\<lambda>(r, s). (r, hre s, timers s, map fst (warnings s)))
     (retry (deployAttempt flakyExternal ''Comet.sol'' []) None None None freshManager)
     = Some (Inr \<lparr>address = ''0xcc'', abi = ''Comet.sol''\<rparr>, 3, [250, 500], [5, 4])
   \<and> map_option (\<lambda>(r, s). (r, hre s, timers s))
       (retry (deployAttempt downExternal ''Comet.sol'' []) (Some 2) None None freshManager)
     = Some (Inl (Error ''!!!''), 3, [250, 500])
   \<and> map_option (\<lambda>(r, s). (r, hre s, timers s))
       (retry (deployAttempt downExternal ''Comet.sol'' []) None None None freshManager)
     = Some (Inl (Error ''!!!!!!''), 6, [250, 500, 1000, 2000, 4000])
   \<and> map_option (\<lambda>(r, s). (r, hre s, timers s))
       (retry (deployAttempt slowExternal ''Comet.sol'' []) (Some 1) (Some 5000) None freshManager)
     = Some (Inl (Error ''Async call timeout limit reached''), 2, [250])"
proof -
  let ?fn = "deployAttempt flakyExternal ''Comet.sol'' []"
  let ?s1 = "snd (?fn freshManager)"
  let ?b1 = "backOff 5 250 (Error ''transient'') ?s1"
  let ?s2 = "snd (?fn ?b1)"
  let ?b2 = "backOff 4 500 (Error ''transient'') ?s2"
  let ?s3 = "snd (?fn ?b2)"
  let ?r = "\<lparr>address = ''0xcc'', abi = ''Comet.sol''\<rparr>"
  have quiet: "\<forall>s. timers (snd (?fn s)) = timers s" by (simp add: timers_deployAttempt)
  have a1: "asyncCallWithTimeout (fst (?fn freshManager)) None = Inl (Error ''transient'')"
    by (simp add: attempt_defs)
  have a2: "asyncCallWithTimeout (fst (?fn ?b1)) None = Inl (Error ''transient'')"
    by (simp add: attempt_defs)
  have a3: "asyncCallWithTimeout (fst (?fn ?b2)) None = Inr ?r"
    by (simp add: attempt_defs)
  have "retry ?fn None None None freshManager = Some (Inr ?r, ?s3)
      \<and> timers ?s3 = timers freshManager @ [250, 500]"
    using retry_doubles_the_wait_and_rethrows_the_last_error[OF quiet, of None,
        THEN conjunct1, rule_format,
        of freshManager "fst (?fn freshManager)" ?s1 "Error ''transient''"
           "fst (?fn ?b1)" ?s2 "Error ''transient''" "fst (?fn ?b2)" ?s3 ?r]
      a1 a2 a3 by simp
  moreover have "hre ?s3 = 3" by (simp add: attempt_defs)
  moreover have "map fst (warnings ?s3) = [5, 4]" by (simp add: attempt_defs)
  moreover have "timers freshManager = []" by (simp add: freshManager_def)
  ultimately have first: "map_option (\<lambda>(r, s). (r, hre s, timers s, map fst (warnings s)))
     (retry ?fn None None None freshManager) = Some (Inr ?r, 3, [250, 500], [5, 4])"
    by simp
  have second: "map_option (\<lambda>(r, s). (r, hre s, timers s))
       (retry (deployAttempt downExternal ''Comet.sol'' []) (Some 2) None None freshManager)
     = Some (Inl (Error ''!!!''), 3, [250, 500])"
    by (simp add: retry_def retryFrom.simps attempt_defs)
  have third: "map_option (\<lambda>(r, s). (r, hre s, timers s))
       (retry (deployAttempt downExternal ''Comet.sol'' []) None None None freshManager)
     = Some (Inl (Error ''!!!!!!''), 6, [250, 500, 1000, 2000, 4000])"
    by (simp add: retry_def retryFrom.simps attempt_defs)
  have fourth: "map_option (\<lambda>(r, s). (r, hre s, timers s))
       (retry (deployAttempt slowExternal ''Comet.sol'' []) (Some 1) (Some 5000) None freshManager)
     = Some (Inl (Error ''Async call timeout limit reached''), 2, [250])"
    by (simp add: retry_def retryFrom.simps attempt_defs)
  from first second third fourth show ?thesis by blast
qed

section \<open>Deploying under an alias\<close>

lemma getSigner_ignores_deployer:
  "getSigner (X\<lparr>Deploy_deploy := D\<rparr>) s = getSigner X s"
  by (simp add: getSigner_def getSigners_def)

lemma contracts_ignores_deployer:
  "contracts (X\<lparr>Deploy_deploy := D\<rparr>) s = contracts X s"
  by (simp add: contracts_def getSigner_ignores_deployer split: option.splits prod.splits)

lemma contract_ignores_deployer:
  "contract (X\<lparr>Deploy_deploy := D\<rparr>) alias s = contract X alias s"
  by (simp add: contract_def contracts_ignores_deployer)

lemma contract_frame:
  assumes "contract X alias s = (r, s1)"
  shows "counter s1 = counter s \<and> hre s1 = hre s \<and> cache s1 = cache s
       \<and> timers s1 = timers s \<and> warnings s1 = warnings s"
  using assms
  by (auto simp: contract_def contracts_def getSigner_def getSigners_def Let_def
      split: option.splits sum.splits prod.splits if_splits)

lemma counter_backOff: "counter (backOff retries wait e s) = counter s"
  by (simp add: backOff_def resetSignersPendingCounts_def Let_def)

lemma retryFrom_counter:
  assumes run: "retryFrom fn retries timeLimit wait s = Some y"
      and frame: "\<forall>s. counter (snd (fn s)) = counter s"
  shows "counter (snd y) = counter s"
proof -
  have "(\<forall>s. counter (snd (fn s)) = counter s) \<longrightarrow> counter (snd y) = counter s"
  proof (rule retryFrom.raw_induct[where
        P = "\<lambda>fn retries timeLimit wait s y.
               (\<forall>s. counter (snd (fn s)) = counter s) \<longrightarrow> counter (snd y) = counter s",
        OF _ run])
    fix rf fn' retries' timeLimit' wait' s' y'
    assume IH: "\<And>retries timeLimit wait s b y.
        rf retries timeLimit wait s b = Some y \<Longrightarrow>
        (\<forall>s. counter (snd (retries s)) = counter s) \<longrightarrow> counter (snd y) = counter b"
      and body: "(case fn' s' of
          (p, s1) \<Rightarrow>
            case asyncCallWithTimeout p timeLimit' of
              Inl e \<Rightarrow>
                if retries' = 0 then Some (Inl e, s1)
                else rf fn' (retries' - 1) timeLimit' (wait' * 2) (backOff retries' wait' e s1)
            | Inr r \<Rightarrow> Some (Inr r, s1)) = Some y'"
    show "(\<forall>s. counter (snd (fn' s)) = counter s) \<longrightarrow> counter (snd y') = counter s'"
    proof
      assume fr: "\<forall>s. counter (snd (fn' s)) = counter s"
      obtain p s1 where a: "fn' s' = (p, s1)" by (cases "fn' s'")
      with fr[rule_format, of s'] have c1: "counter s1 = counter s'" by simp
      show "counter (snd y') = counter s'"
      proof (cases "asyncCallWithTimeout p timeLimit'")
        case (Inr r)
        with body a c1 show ?thesis by auto
      next
        case (Inl e)
        show ?thesis
        proof (cases "retries' = 0")
          case True
          with body a Inl c1 show ?thesis by auto
        next
          case False
          with body a Inl have
            "rf fn' (retries' - 1) timeLimit' (wait' * 2) (backOff retries' wait' e s1) = Some y'"
            by simp
          from IH[OF this] fr have "counter (snd y') = counter (backOff retries' wait' e s1)"
            by blast
          with c1 show ?thesis by (simp add: counter_backOff)
        qed
      qed
    qed
  qed
  with frame show ?thesis by blast
qed

lemma counter_deployAttempt: "counter (snd (deployAttempt X contractFile deployArgs s)) = counter s"
  by (simp add: deployAttempt_def deployOpts_def getSigner_def getSigners_def Let_def
      split: prod.splits)

lemma contract_cached:
  "contractsCache s = Some m \<Longrightarrow> contract X alias s = (Inr (m alias), s)"
  by (simp add: contract_def contracts_def)

lemma contract_caches:
  "contract X alias s = (Inr k, s1) \<Longrightarrow> \<exists>m. contractsCache s1 = Some m \<and> m alias = k"
  by (auto simp: contract_def contracts_def split: option.splits sum.splits prod.splits)

lemma contract_materialises:
  assumes "contractsCache s = None" and "contract X alias s = (Inr k, s1)"
  shows "\<exists>sg h m. ContractMap_getContracts X (cache s) h sg = Inr m \<and> m alias = k"
proof -
  obtain sg s' where g: "getSigner X s = (sg, s')" by (cases "getSigner X s")
  then have "cache s' = cache s"
    by (auto simp: getSigner_def getSigners_def Let_def split: if_splits)
  with assms g show ?thesis
    by (auto simp: contract_def contracts_def split: sum.splits)
qed

lemma deploy'_succeeds:
  assumes "retry (deployAttempt X contractFile deployArgs) retries None None s = Some (Inr c, s1)"
  shows "deploy' X contractFile deployArgs retries s = Some (Inr c, s1\<lparr>counter := counter s1 + 1\<rparr>)"
    and "counter s1 = counter s"
proof -
  show "deploy' X contractFile deployArgs retries s = Some (Inr c, s1\<lparr>counter := counter s1 + 1\<rparr>)"
    using assms by (simp add: deploy'_def)
  from assms show "counter s1 = counter s"
    using retryFrom_counter[of "deployAttempt X contractFile deployArgs" _ None _ s "(Inr c, s1)"]
    by (simp add: retry_def counter_deployAttempt)
qed

lemmas deploy_defs = deploy_def deploy'_def contract_def contracts_def retry_def retryFrom.simps
  deployAttempt_def deployOpts_def getSigner_def getSigners_def
  flakyExternal_def downExternal_def freshManager_def exampleCache_def backOff_def
  resetSignersPendingCounts_def asyncCallWithTimeout_def getManagedSigner_def Let_def
  putAlias_def invalidateContractsCache_def Aliases_putAlias_def

lemma firstDeploy_value:
  "deploy flakyExternal ''comet'' ''Comet.sol'' [] False None freshManager
     = Some (Inr \<lparr>address = ''0xcc'', abi = ''Comet.sol''\<rparr>, afterFirstDeploy)"
  by (simp add: afterFirstDeploy_def deploy_defs)

lemma afterFirstDeploy_counts: "counter afterFirstDeploy = 1 \<and> hre afterFirstDeploy = 3"
  by (simp add: afterFirstDeploy_def deploy_defs)

lemma afterFirstDeploy_resolves:
  "fst (contract flakyExternal ''comet'' afterFirstDeploy)
     = Inr (Some \<lparr>address = ''0xcc'', abi = ''comet''\<rparr>)"
  by (simp add: afterFirstDeploy_def deploy_defs)

text \<open>
  Claim C5. The handles that \<open>getContracts\<close> materialises sit at the addresses of their
  aliases. Let a first \<open>deploy\<close> without force have returned a handle, and let the alias
  resolve in the state it left. Then a second \<open>deploy\<close> of the alias without force
  returns the handle the alias resolves to, whatever the deployer would do and whatever
  contract file and arguments it is given: nothing is constructed. That handle has the
  address of the first call's, and the counter, the runtime and the cache are as the first
  call left them. And a deploy that finds no handle for the alias, or is forced, and whose
  construction succeeds, returns the new handle with the counter one higher than before,
  the alias stored at the handle's address and the cache of handles emptied.
\<close>

theorem deploy_is_idempotent_per_alias:
  fixes X :: "('h, 'a) External"
  assumes handles: "\<forall>c h sg m a k.
                      ContractMap_getContracts X c h sg = Inr m \<and> m a = Some k
                      \<longrightarrow> cachedAliases c a = Some (address k)"
      and first: "deploy X alias contractFile deployArgs False retries s0 = Some (Inr c1, s1)"
      and resolves: "contract X alias s1 = (Inr (Some h), s2)"
  shows "(\<forall>D contractFile' deployArgs' retries'.
            deploy (X\<lparr>Deploy_deploy := D\<rparr>) alias contractFile' deployArgs' False retries' s1
              = Some (Inr h, s2))
       \<and> address h = address c1
       \<and> counter s2 = counter s1 \<and> hre s2 = hre s1 \<and> cache s2 = cache s1
       \<and> (\<forall>t0 m ta force cf da n c tb.
            contract X alias t0 = (Inr m, ta) \<and> (force \<or> m = None)
            \<and> retry (deployAttempt X cf da) n None None ta = Some (Inr c, tb)
            \<longrightarrow> (\<exists>t1. deploy X alias cf da force n t0 = Some (Inr c, t1)
                     \<and> counter t1 = counter t0 + 1
                     \<and> getAliases t1 alias = Some (address c)
                     \<and> contractsCache t1 = None))"
proof (intro conjI allI impI)
  fix D contractFile' deployArgs' retries'
  show "deploy (X\<lparr>Deploy_deploy := D\<rparr>) alias contractFile' deployArgs' False retries' s1
              = Some (Inr h, s2)"
    using resolves by (simp add: deploy_def contract_ignores_deployer)
next
  obtain q sa where c0: "contract X alias s0 = (q, sa)" by (cases "contract X alias s0")
  with first obtain maybeExisting where q: "q = Inr maybeExisting"
    by (cases q) (auto simp: deploy_def)
  show "address h = address c1"
  proof (cases maybeExisting)
    case (Some existing)
    with first c0 q have e: "existing = c1" "sa = s1" by (auto simp: deploy_def)
    from contract_caches[OF c0[unfolded q]] Some e obtain m where
      "contractsCache s1 = Some m" "m alias = Some c1" by auto
    with resolves contract_cached[of s1 m X "alias"] show ?thesis by simp
  next
    case None
    with first c0 q obtain sb where
      d: "deploy' X contractFile deployArgs retries sa = Some (Inr c1, sb)"
      and s1: "s1 = putAlias alias (address c1) sb"
      by (auto simp: deploy_def split: option.splits sum.splits prod.splits)
    from s1 have nc: "contractsCache s1 = None"
      and al: "cachedAliases (cache s1) alias = Some (address c1)"
      by (simp_all add: putAlias_def invalidateContractsCache_def Aliases_putAlias_def)
    from contract_materialises[OF nc resolves] obtain sg hh m where
      "ContractMap_getContracts X (cache s1) hh sg = Inr m" "m alias = Some h" by blast
    with handles have "cachedAliases (cache s1) alias = Some (address h)" by blast
    with al show ?thesis by simp
  qed
next
  from contract_frame[OF resolves]
  show "counter s2 = counter s1" "hre s2 = hre s1" "cache s2 = cache s1" by simp_all
next
  fix t0 m ta force cf da n c tb
  assume h: "contract X alias t0 = (Inr m, ta) \<and> (force \<or> m = None)
            \<and> retry (deployAttempt X cf da) n None None ta = Some (Inr c, tb)"
  let ?t1 = "putAlias alias (address c) (tb\<lparr>counter := counter tb + 1\<rparr>)"
  from h have sel: "(if force then None else m) = None" by auto
  from h have d: "deploy' X cf da n ta = Some (Inr c, tb\<lparr>counter := counter tb + 1\<rparr>)"
    and cb: "counter tb = counter ta"
    using deploy'_succeeds[of X cf da n ta c tb] by simp_all
  from h sel d have "deploy X alias cf da force n t0 = Some (Inr c, ?t1)"
    by (simp add: deploy_def)
  moreover from h contract_frame[of X "alias" t0 "Inr m" ta] cb
  have "counter ?t1 = counter t0 + 1"
    by (simp add: putAlias_def invalidateContractsCache_def)
  moreover have "getAliases ?t1 alias = Some (address c)" "contractsCache ?t1 = None"
    by (simp_all add: getAliases_def Aliases_getAliases_def putAlias_def
        invalidateContractsCache_def Aliases_putAlias_def)
  ultimately show "\<exists>t1. deploy X alias cf da force n t0 = Some (Inr c, t1)
                     \<and> counter t1 = counter t0 + 1
                     \<and> getAliases t1 alias = Some (address c)
                     \<and> contractsCache t1 = None"
    by blast
qed

text \<open>
  On the flaky runtime the first call constructs once, on the third attempt. The second
  call is given a deployer that always fails, and returns a handle at the same address
  with the counter and the runtime unchanged.
\<close>

theorem deploy_is_idempotent_per_alias_witness:
  "map_option (\<lambda>(r, s). (r, counter s, hre s))
     (deploy flakyExternal ''comet'' ''Comet.sol'' [] False None freshManager)
     = Some (Inr \<lparr>address = ''0xcc'', abi = ''Comet.sol''\<rparr>, 1, 3)
   \<and> map_option (\<lambda>(r, s). (r, counter s, hre s))
       (deploy (flakyExternal\<lparr>Deploy_deploy := Deploy_deploy downExternal\<rparr>)
          ''comet'' ''Comet.sol'' [] False None afterFirstDeploy)
     = Some (Inr \<lparr>address = ''0xcc'', abi = ''comet''\<rparr>, 1, 3)"
proof -
  let ?h = "\<lparr>address = ''0xcc'', abi = ''comet''\<rparr>"
  let ?s2 = "snd (contract flakyExternal ''comet'' afterFirstDeploy)"
  have handles: "\<forall>c h sg m a k.
                      ContractMap_getContracts flakyExternal c h sg = Inr m \<and> m a = Some k
                      \<longrightarrow> cachedAliases c a = Some (address k)"
    by (auto simp: flakyExternal_def)
  have resolves: "contract flakyExternal ''comet'' afterFirstDeploy = (Inr (Some ?h), ?s2)"
    using afterFirstDeploy_resolves by (simp add: prod_eq_iff)
  from deploy_is_idempotent_per_alias[OF handles firstDeploy_value resolves]
  have second: "deploy (flakyExternal\<lparr>Deploy_deploy := Deploy_deploy downExternal\<rparr>)
          ''comet'' ''Comet.sol'' [] False None afterFirstDeploy = Some (Inr ?h, ?s2)"
    and same: "counter ?s2 = counter afterFirstDeploy" "hre ?s2 = hre afterFirstDeploy"
    by blast+
  from second same firstDeploy_value afterFirstDeploy_counts show ?thesis by simp
qed

section \<open>Aliases and the cache of handles\<close>

text \<open>
  Claim C7. After \<open>putAlias\<close> the aliases hold the new address, and after \<open>putProxy\<close>
  the proxies do. Both leave the cache of handles empty, so what \<open>contracts\<close> returns
  next does not depend on the handles that were cached before: it is what \<open>getContracts\<close>
  builds from the cache as written, and that is what is cached from then on.
\<close>

theorem putAlias_is_read_back_and_invalidates_handles:
  fixes X :: "('h, 'a) External" and s :: "('h, 'a) DeploymentManager"
  shows "getAliases (putAlias A addr s) A = Some addr
       \<and> contractsCache (putAlias A addr s) = None
       \<and> getProxies (putProxy A addr s) A = Some addr
       \<and> contractsCache (putProxy A addr s) = None
       \<and> contracts X (putAlias A addr (s\<lparr>contractsCache := k\<rparr>)) = contracts X (putAlias A addr s)
       \<and> contracts X (putProxy A addr (s\<lparr>contractsCache := k\<rparr>)) = contracts X (putProxy A addr s)
       \<and> (\<forall>m s1. contracts X (putAlias A addr s) = (Inr m, s1)
            \<longrightarrow> contractsCache s1 = Some m
                \<and> (\<exists>h sg. ContractMap_getContracts X (cache (putAlias A addr s)) h sg = Inr m))
       \<and> (\<forall>m s1. contracts X (putProxy A addr s) = (Inr m, s1)
            \<longrightarrow> contractsCache s1 = Some m
                \<and> (\<exists>h sg. ContractMap_getContracts X (cache (putProxy A addr s)) h sg = Inr m))"
proof -
  have rebuilt: "\<And>(t :: ('h, 'a) DeploymentManager) m s1.
      contractsCache t = None \<Longrightarrow> contracts X t = (Inr m, s1)
        \<Longrightarrow> contractsCache s1 = Some m \<and> (\<exists>h sg. ContractMap_getContracts X (cache t) h sg = Inr m)"
  proof -
    fix t :: "('h, 'a) DeploymentManager" and m s1
    assume n: "contractsCache t = None" and c: "contracts X t = (Inr m, s1)"
    obtain sg t' where g: "getSigner X t = (sg, t')" by (cases "getSigner X t")
    then have "cache t' = cache t"
      by (auto simp: getSigner_def getSigners_def Let_def split: if_splits)
    with n c g show "contractsCache s1 = Some m
        \<and> (\<exists>h sg. ContractMap_getContracts X (cache t) h sg = Inr m)"
      by (auto simp: contracts_def split: sum.splits)
  qed
  have a: "contractsCache (putAlias A addr s) = None" "contractsCache (putProxy A addr s) = None"
    by (simp_all add: putAlias_def putProxy_def invalidateContractsCache_def)
  show ?thesis
    using rebuilt[OF a(1)] rebuilt[OF a(2)]
    by (simp add: getAliases_def getProxies_def putAlias_def putProxy_def
        invalidateContractsCache_def Aliases_getAliases_def Aliases_putAlias_def
        Proxies_getProxies_def Proxies_putProxy_def)
qed

text \<open>
  The stale manager resolves \<open>comet\<close> to the old address; after \<open>putAlias\<close> it resolves
  it to the new one.
\<close>

theorem putAlias_is_read_back_and_invalidates_handles_witness:
  "fst (contract flakyExternal ''comet'' staleManager)
     = Inr (Some \<lparr>address = ''0xold'', abi = ''comet''\<rparr>)
   \<and> getAliases (putAlias ''comet'' ''0xnew'' staleManager) ''comet'' = Some ''0xnew''
   \<and> contractsCache (putAlias ''comet'' ''0xnew'' staleManager) = None
   \<and> fst (contract flakyExternal ''comet'' (putAlias ''comet'' ''0xnew'' staleManager))
     = Inr (Some \<lparr>address = ''0xnew'', abi = ''comet''\<rparr>)"
proof -
  have "fst (contract flakyExternal ''comet'' staleManager)
     = Inr (Some \<lparr>address = ''0xold'', abi = ''comet''\<rparr>)"
    by (simp add: contract_def contracts_def staleManager_def)
  moreover have "fst (contract flakyExternal ''comet'' (putAlias ''comet'' ''0xnew'' staleManager))
     = Inr (Some \<lparr>address = ''0xnew'', abi = ''comet''\<rparr>)"
    by (simp add: contract_def contracts_def staleManager_def putAlias_def
        invalidateContractsCache_def Aliases_putAlias_def getSigner_def getSigners_def
        flakyExternal_def Let_def freshManager_def)
  ultimately show ?thesis
    using putAlias_is_read_back_and_invalidates_handles[of "''comet''" "''0xnew''" staleManager]
    by simp
qed

section \<open>Running the deploy script\<close>

text \<open>
  What \<open>spider\<close> does with the crawler's answer: a crawl that succeeds is returned and
  persisted, with the handles invalidated; the first crawl of \<open>runDeployScript\<close> starts
  from the persisted roots alone.
\<close>

lemma spider_frame:
  assumes "spider X deployed s = (r, s1)"
  shows "counter s1 = counter s \<and> hre s1 = hre s \<and> timers s1 = timers s
       \<and> warnings s1 = warnings s \<and> signers s1 = signers s"
  using assms
  by (auto simp: spider_def invalidateContractsCache_def Let_def split: prod.splits sum.splits)

lemma spider_crawls:
  assumes "Spider_spider X (cache s) (hre s)
             (Roots_getRoots (cache s) ++ (\<lambda>a. map_option address (deployed a))) = (Inr crawl, c1)"
  shows "spider X deployed s =
           (Inr crawl,
            s\<lparr>cache := persisted (Roots_getRoots (cache s) ++ (\<lambda>a. map_option address (deployed a)))
                          crawl c1,
              contractsCache := None\<rparr>)"
  using assms by (simp add: spider_def invalidateContractsCache_def Let_def)

lemma spider_from_persisted_roots:
  assumes "Spider_spider X (cache s) (hre s) (Roots_getRoots (cache s)) = (Inr crawl, c1)"
  shows "spider X Map.empty s =
           (Inr crawl,
            s\<lparr>cache := persisted (Roots_getRoots (cache s)) crawl c1, contractsCache := None\<rparr>)"
  using spider_crawls[of X s Map.empty crawl c1] assms by simp

lemma runDeployScript_after_first_crawl:
  fixes X :: "('h, 'a) External" and s :: "('h, 'a) DeploymentManager"
  assumes first: "Spider_spider X (cache s) (hre s) (Roots_getRoots (cache s)) = (Inr oldSpider, c1)"
      and snapshot: "s1 = s\<lparr>cache := persisted (Roots_getRoots (cache s)) oldSpider c1,
                             contractsCache := None\<rparr>"
      and script: "importModule X (Cache_getFilePath X (cache s1) ''deploy.ts'') = Inr d"
  shows "(missingDeployFunction d
            \<longrightarrow> runDeployScript X deploySpec s
                  = (Inl (Error (''Missing deploy function in ''
                                  @ Cache_getFilePath X (cache s1) ''deploy.ts'' @ ''.'')), s1))
       \<and> (\<forall>typeError. d = Truthy True (Inl typeError)
            \<longrightarrow> runDeployScript X deploySpec s = (Inl typeError, s1))
       \<and> (\<not> callable d
            \<longrightarrow> (\<exists>e. runDeployScript X deploySpec s = (Inl e, s1))
                \<and> counter s1 = counter s \<and> hre s1 = hre s
                \<and> timers s1 = timers s \<and> warnings s1 = warnings s)
       \<and> (\<forall>deployFn deployed s2 newSpider c3.
            d = Truthy True (Inr deployFn)
            \<and> deployFn deploySpec s1 = (Inr deployed, s2)
            \<and> Spider_spider X (cache s2) (hre s2)
                (Roots_getRoots (cache s2) ++ (\<lambda>a. map_option address (deployed a)))
                = (Inr newSpider, c3)
            \<longrightarrow> runDeployScript X deploySpec s
                  = (Inr \<lparr>old = \<lparr>count' = counter s, spider' = oldSpider\<rparr>,
                          new = \<lparr>count' = counter s2, spider' = newSpider\<rparr>\<rparr>,
                     s2\<lparr>cache := persisted
                                    (Roots_getRoots (cache s2)
                                       ++ (\<lambda>a. map_option address (deployed a)))
                                    newSpider c3,
                        contractsCache := None\<rparr>))"
proof -
  have sp: "spider X Map.empty s = (Inr oldSpider, s1)"
    using spider_from_persisted_roots[OF first] snapshot by simp
  have missing: "missingDeployFunction d
            \<Longrightarrow> runDeployScript X deploySpec s
                  = (Inl (Error (''Missing deploy function in ''
                                  @ Cache_getFilePath X (cache s1) ''deploy.ts'' @ ''.'')), s1)"
  proof -
    assume m: "missingDeployFunction d"
    show ?thesis
    proof (cases d)
      case Falsy
      with sp script show ?thesis by (simp add: runDeployScript_def Let_def)
    next
      case (Truthy hasCall calling)
      with m have "hasCall = False" by simp
      with Truthy sp script show ?thesis by (simp add: runDeployScript_def Let_def)
    qed
  qed
  have thrown: "\<And>typeError. d = Truthy True (Inl typeError)
            \<Longrightarrow> runDeployScript X deploySpec s = (Inl typeError, s1)"
    using sp script by (simp add: runDeployScript_def Let_def)
  have notCallable: "\<not> callable d \<Longrightarrow> \<exists>e. runDeployScript X deploySpec s = (Inl e, s1)"
  proof -
    assume n: "\<not> callable d"
    show ?thesis
    proof (cases "missingDeployFunction d")
      case True
      with missing show ?thesis by blast
    next
      case False
      then obtain calling where d: "d = Truthy True calling" by (cases d) auto
      with n obtain typeError where "calling = Inl typeError" by (cases calling) auto
      with d thrown show ?thesis by blast
    qed
  qed
  have frame: "counter s1 = counter s \<and> hre s1 = hre s \<and> timers s1 = timers s
             \<and> warnings s1 = warnings s"
    using snapshot by simp
  have snapshots: "\<And>deployFn deployed s2 newSpider c3.
            d = Truthy True (Inr deployFn)
            \<and> deployFn deploySpec s1 = (Inr deployed, s2)
            \<and> Spider_spider X (cache s2) (hre s2)
                (Roots_getRoots (cache s2) ++ (\<lambda>a. map_option address (deployed a)))
                = (Inr newSpider, c3)
            \<Longrightarrow> runDeployScript X deploySpec s
                  = (Inr \<lparr>old = \<lparr>count' = counter s, spider' = oldSpider\<rparr>,
                          new = \<lparr>count' = counter s2, spider' = newSpider\<rparr>\<rparr>,
                     s2\<lparr>cache := persisted
                                    (Roots_getRoots (cache s2)
                                       ++ (\<lambda>a. map_option address (deployed a)))
                                    newSpider c3,
                        contractsCache := None\<rparr>)"
  proof -
    fix deployFn deployed s2 newSpider c3
    assume h: "d = Truthy True (Inr deployFn)
            \<and> deployFn deploySpec s1 = (Inr deployed, s2)
            \<and> Spider_spider X (cache s2) (hre s2)
                (Roots_getRoots (cache s2) ++ (\<lambda>a. map_option address (deployed a)))
                = (Inr newSpider, c3)"
    then have "spider X deployed s2 =
           (Inr newSpider,
            s2\<lparr>cache := persisted (Roots_getRoots (cache s2) ++ (\<lambda>a. map_option address (deployed a)))
                          newSpider c3,
               contractsCache := None\<rparr>)"
      using spider_crawls[of X s2 deployed newSpider c3] by simp
    with h sp script show "runDeployScript X deploySpec s
                  = (Inr \<lparr>old = \<lparr>count' = counter s, spider' = oldSpider\<rparr>,
                          new = \<lparr>count' = counter s2, spider' = newSpider\<rparr>\<rparr>,
                     s2\<lparr>cache := persisted
                                    (Roots_getRoots (cache s2)
                                       ++ (\<lambda>a. map_option address (deployed a)))
                                    newSpider c3,
                        contractsCache := None\<rparr>)"
      by (simp add: runDeployScript_def Let_def)
  qed
  from missing thrown notCallable frame snapshots show ?thesis by blast
qed


lemma runDeployScript_first_crawl_fails:
  assumes "Spider_spider X (cache s) (hre s) (Roots_getRoots (cache s)) = (Inl e, c1)"
  shows "runDeployScript X deploySpec s = (Inl e, s\<lparr>cache := c1\<rparr>)"
  using assms by (simp add: runDeployScript_def spider_def Let_def)

lemmas script_defs = runDeployScript_def spider_def scriptExternal_def flakyExternal_def
  classExternal_def rootedManager_def freshManager_def exampleCache_def
  invalidateContractsCache_def Let_def
  Roots_getRoots_def Roots_putRoots_def Aliases_storeAliases_def Proxies_storeProxies_def
  getAliases_def Aliases_getAliases_def map_add_def

text \<open>
  Claim C9. Let the crawler succeed from the persisted roots; \<open>s1\<close> is the manager with
  that crawl persisted, the state in which the script is imported. If the default export
  is falsy or has no truthy \<open>call\<close>, \<open>runDeployScript\<close> throws the error that names the
  script; if it passes that test and cannot be called, the call throws the host's
  \<open>TypeError\<close>. So for every export that cannot be called an error is thrown in the state
  \<open>s1\<close>: no procedure has run, the counter and the runtime are as before, and nothing was
  waited for or warned about, as a retry would. If the export is a procedure with its
  \<open>call\<close>, and it and the crawl after it succeed, the result holds the counter as it was
  on entry with the crawl from the persisted roots, and the counter as the procedure left
  it with the crawl from the roots then persisted and the addresses of the contracts the
  procedure returned; that crawl is persisted in turn. If the first crawl fails, its error
  is thrown.
\<close>

theorem runDeployScript_throws_or_snapshots:
  fixes X :: "('h, 'a) External" and s :: "('h, 'a) DeploymentManager"
  shows "(\<forall>oldSpider c1 s1 d.
            Spider_spider X (cache s) (hre s) (Roots_getRoots (cache s)) = (Inr oldSpider, c1)
            \<and> s1 = s\<lparr>cache := persisted (Roots_getRoots (cache s)) oldSpider c1,
                       contractsCache := None\<rparr>
            \<and> importModule X (Cache_getFilePath X (cache s1) ''deploy.ts'') = Inr d
            \<longrightarrow> (missingDeployFunction d
                   \<longrightarrow> runDeployScript X deploySpec s
                         = (Inl (Error (''Missing deploy function in ''
                                         @ Cache_getFilePath X (cache s1) ''deploy.ts'' @ ''.'')),
                            s1))
                \<and> (\<forall>typeError. d = Truthy True (Inl typeError)
                     \<longrightarrow> runDeployScript X deploySpec s = (Inl typeError, s1))
                \<and> (\<not> callable d
                     \<longrightarrow> (\<exists>e. runDeployScript X deploySpec s = (Inl e, s1))
                         \<and> counter s1 = counter s \<and> hre s1 = hre s
                         \<and> timers s1 = timers s \<and> warnings s1 = warnings s)
                \<and> (\<forall>deployFn deployed s2 newSpider c3.
                     d = Truthy True (Inr deployFn)
                     \<and> deployFn deploySpec s1 = (Inr deployed, s2)
                     \<and> Spider_spider X (cache s2) (hre s2)
                         (Roots_getRoots (cache s2) ++ (\<lambda>a. map_option address (deployed a)))
                         = (Inr newSpider, c3)
                     \<longrightarrow> runDeployScript X deploySpec s
                           = (Inr \<lparr>old = \<lparr>count' = counter s, spider' = oldSpider\<rparr>,
                                   new = \<lparr>count' = counter s2, spider' = newSpider\<rparr>\<rparr>,
                              s2\<lparr>cache := persisted
                                             (Roots_getRoots (cache s2)
                                                ++ (\<lambda>a. map_option address (deployed a)))
                                             newSpider c3,
                                 contractsCache := None\<rparr>)))
       \<and> (\<forall>e c1.
            Spider_spider X (cache s) (hre s) (Roots_getRoots (cache s)) = (Inl e, c1)
            \<longrightarrow> runDeployScript X deploySpec s = (Inl e, s\<lparr>cache := c1\<rparr>))"
proof -
  show ?thesis (is "?afterCrawl \<and> ?crawlFails")
  proof (rule conjI)
    show ?afterCrawl
      by (intro allI, rule impI, elim conjE, rule runDeployScript_after_first_crawl)
    show ?crawlFails
      by (intro allI impI, rule runDeployScript_first_crawl_fails)
  qed
qed

text \<open>
  On a manager with the root \<open>timelock\<close>: a script without a default export ends in the
  error that names it, with the first crawl persisted; a script that exports a class ends
  in the \<open>TypeError\<close>; a script whose procedure deploys \<open>comet\<close> gives counts 0 and 1,
  a first crawl with \<open>timelock\<close> alone and a second with \<open>comet\<close> as well, and leaves
  \<open>comet\<close> among the roots.
\<close>

theorem runDeployScript_throws_or_snapshots_witness:
  "fst (runDeployScript flakyExternal ''{}'' rootedManager)
     = Inl (Error ''Missing deploy function in deployments/deploy.ts.'')
   \<and> counter (snd (runDeployScript flakyExternal ''{}'' rootedManager)) = 0
   \<and> timers (snd (runDeployScript flakyExternal ''{}'' rootedManager)) = []
   \<and> getAliases (snd (runDeployScript flakyExternal ''{}'' rootedManager)) ''timelock''
     = Some ''0x71''
   \<and> fst (runDeployScript classExternal ''{}'' rootedManager)
     = Inl (Error ''TypeError: Class constructor Deploy cannot be invoked without new'')
   \<and> map_sum id (\<lambda>d. (count' (old d), aliases (spider' (old d)) ''timelock'',
                        aliases (spider' (old d)) ''comet'',
                        count' (new d), aliases (spider' (new d)) ''timelock'',
                        aliases (spider' (new d)) ''comet''))
       (fst (runDeployScript scriptExternal ''{}'' rootedManager))
     = Inr (0, Some ''0x71'', None, 1, Some ''0x71'', Some ''0xc'')
   \<and> Roots_getRoots (cache (snd (runDeployScript scriptExternal ''{}'' rootedManager))) ''comet''
     = Some ''0xc''"
proof -
  let ?old = "\<lparr>aliases = Roots_getRoots (cache rootedManager), proxies = Map.empty\<rparr>"
  let ?s1 = "rootedManager\<lparr>cache := persisted (Roots_getRoots (cache rootedManager)) ?old
                                      (cache rootedManager),
                           contractsCache := None\<rparr>"
  have first: "Spider_spider flakyExternal (cache rootedManager) (hre rootedManager)
                 (Roots_getRoots (cache rootedManager)) = (Inr ?old, cache rootedManager)"
    by (simp add: flakyExternal_def)
  have script: "importModule flakyExternal (Cache_getFilePath flakyExternal (cache ?s1) ''deploy.ts'')
                  = Inr Falsy"
    by (simp add: flakyExternal_def)
  have path: "Cache_getFilePath flakyExternal (cache ?s1) ''deploy.ts'' = ''deployments/deploy.ts''"
    by (simp add: flakyExternal_def)
  from runDeployScript_throws_or_snapshots[of flakyExternal rootedManager "''{}''",
      THEN conjunct1, rule_format, of ?old "cache rootedManager" ?s1 Falsy,
      THEN conjunct1] first script path
  have missing: "runDeployScript flakyExternal ''{}'' rootedManager
          = (Inl (Error ''Missing deploy function in deployments/deploy.ts.''), ?s1)"
    by simp
  have obs: "counter ?s1 = 0" "timers ?s1 = []" "getAliases ?s1 ''timelock'' = Some ''0x71''"
    by (simp_all add: script_defs)
  have thrown: "fst (runDeployScript classExternal ''{}'' rootedManager)
     = Inl (Error ''TypeError: Class constructor Deploy cannot be invoked without new'')"
    by (simp add: script_defs)
  have snapshots: "map_sum id (\<lambda>d. (count' (old d), aliases (spider' (old d)) ''timelock'',
                        aliases (spider' (old d)) ''comet'',
                        count' (new d), aliases (spider' (new d)) ''timelock'',
                        aliases (spider' (new d)) ''comet''))
       (fst (runDeployScript scriptExternal ''{}'' rootedManager))
     = Inr (0, Some ''0x71'', None, 1, Some ''0x71'', Some ''0xc'')"
    by (simp add: script_defs)
  have roots: "Roots_getRoots (cache (snd (runDeployScript scriptExternal ''{}'' rootedManager))) ''comet''
     = Some ''0xc''"
    by (simp add: script_defs)
  from missing obs thrown snapshots roots show ?thesis by simp
qed

end
